(* ===== verification/LedgerPrelude.thy ===== *)
theory LedgerPrelude
  imports Main "HOL-Library.Word" "HOL-Library.List_Lexorder" "HOL-Library.Sublist"
    "HOL-Library.Finite_Map"
begin

text \<open>
  Shared vocabulary of the development: the machine integers of the Rust code, its
  \<open>Result\<close> type as a sum (\<open>Err\<close> left, \<open>Ok\<close> right), the string
  functions of the standard library the code calls (\<open>starts_with\<close>,
  \<open>ends_with\<close>, \<open>contains\<close>, \<open>split\<close>), big-endian bytes with their
  lexicographic order, and key-sorted association lists.
\<close>

named_theorems ledger_simps \<open>unfolding rules of the program's small operations\<close>

section \<open>Machine integers, results\<close>

type_synonym u8 = "8 word"
type_synonym u64 = "64 word"
type_synonym i64 = "64 word"
type_synonym bytes = "u8 list"

abbreviation Ok :: "'a \<Rightarrow> 'e + 'a" where "Ok \<equiv> Inr"
abbreviation Err :: "'e \<Rightarrow> 'e + 'a" where "Err \<equiv> Inl"

text \<open>The question mark operator, and \<open>map_err\<close>.\<close>

fun try_bind :: "'e + 'a \<Rightarrow> ('a \<Rightarrow> 'e + 'b) \<Rightarrow> 'e + 'b" where
  "try_bind (Inl e) f = Inl e"
| "try_bind (Inr x) f = f x"

fun map_err :: "('e \<Rightarrow> 'd) \<Rightarrow> 'e + 'a \<Rightarrow> 'd + 'a" where
  "map_err f (Inl e) = Inl (f e)"
| "map_err f (Inr x) = Inr x"

lemma try_bind_Ok_iff: "try_bind r f = Inr y \<longleftrightarrow> (\<exists>x. r = Inr x \<and> f x = Inr y)"
  by (cases r) auto

lemma map_err_Ok_iff [simp]: "map_err f r = Inr y \<longleftrightarrow> r = Inr y"
  by (cases r) auto

lemma try_bind_Err_iff:
  "try_bind r f = Inl e \<longleftrightarrow> r = Inl e \<or> (\<exists>x. r = Inr x \<and> f x = Inl e)"
  by (cases r) auto

lemma map_err_Err_iff: "map_err f r = Inl e \<longleftrightarrow> (\<exists>d. r = Inl d \<and> e = f d)"
  by (cases r) auto

lemmas result_iffs = try_bind_Ok_iff try_bind_Err_iff map_err_Err_iff

section \<open>Strings of the standard library\<close>

definition starts_with :: "'a list \<Rightarrow> 'a list \<Rightarrow> bool" where
  "starts_with s p \<longleftrightarrow> take (length p) s = p"

definition ends_with :: "'a list \<Rightarrow> 'a list \<Rightarrow> bool" where
  "ends_with s p \<longleftrightarrow> length p \<le> length s \<and> drop (length s - length p) s = p"

fun contains :: "'a list \<Rightarrow> 'a list \<Rightarrow> bool" where
  "contains [] p \<longleftrightarrow> p = []"
| "contains (c # s) p \<longleftrightarrow> starts_with (c # s) p \<or> contains s p"

definition strip_suffix :: "'a list \<Rightarrow> 'a list \<Rightarrow> 'a list option" where
  "strip_suffix s p = (if ends_with s p then Some (take (length s - length p) s) else None)"

text \<open>\<open>str::split\<close> on one character: always at least one part.\<close>

fun split_on :: "'a \<Rightarrow> 'a list \<Rightarrow> 'a list list" where
  "split_on c [] = [[]]"
| "split_on c (x # xs) =
     (if x = c then [] # split_on c xs
      else case split_on c xs of [] \<Rightarrow> [[x]] | p # ps \<Rightarrow> (x # p) # ps)"

lemma starts_with_prefix: "starts_with s p \<longleftrightarrow> prefix p s"
  unfolding starts_with_def by (metis append_eq_conv_conj append_take_drop_id prefix_def)

lemma starts_with_append [simp]: "starts_with (p @ s) p"
  by (simp add: starts_with_def)

lemma starts_with_Nil [simp]: "starts_with s []"
  by (simp add: starts_with_def)

lemma ends_with_suffix: "ends_with s p \<longleftrightarrow> suffix p s"
proof
  assume "ends_with s p"
  then have "take (length s - length p) s @ p = s"
    unfolding ends_with_def by (metis append_take_drop_id)
  then show "suffix p s" by (metis suffix_def)
next
  assume "suffix p s"
  then show "ends_with s p" by (auto simp: suffix_def ends_with_def)
qed

lemma ends_with_append [simp]: "ends_with (s @ p) p"
  by (simp add: ends_with_def)

lemma ends_with_last_differs: "last s \<noteq> last p \<Longrightarrow> p \<noteq> [] \<Longrightarrow> \<not> ends_with s p"
  by (auto simp: ends_with_suffix suffix_def)

lemma strip_suffix_append [simp]: "strip_suffix (s @ p) p = Some s"
  by (simp add: strip_suffix_def)

lemma contains_sublist: "contains s p \<longleftrightarrow> sublist p s"
  by (induction s p rule: contains.induct)
    (auto simp: starts_with_prefix sublist_Cons_right)

lemma contains_middle [simp]: "contains (a @ p @ b) p"
  by (simp add: contains_sublist sublist_appendI)

lemma contains_mono: "contains s p \<Longrightarrow> contains (a @ s) p"
  by (simp add: contains_sublist sublist_append)

lemma split_on_nonempty [simp]: "split_on c s \<noteq> []"
  by (induction s) (auto split: list.splits)

lemma split_on_free [simp]: "c \<notin> set s \<Longrightarrow> split_on c s = [s]"
  by (induction s) auto

lemma split_on_sep: "c \<notin> set s \<Longrightarrow> split_on c (s @ c # t) = s # split_on c t"
  by (induction s) auto

lemma length_split_on: "length (split_on c s) = Suc (count_list s c)"
  by (induction s) (auto split: list.splits)

lemma count_list_free [simp]: "c \<notin> set s \<Longrightarrow> count_list s c = 0"
  by (induction s) auto

text \<open>\<^verbatim>\<open>Display\<close> of an unsigned integer: its decimal digits.\<close>

fun show_nat :: "nat \<Rightarrow> string" where
  "show_nat n = (if n < 10 then [char_of (48 + n)] else show_nat (n div 10) @ [char_of (48 + n mod 10)])"

declare show_nat.simps [simp del]

section \<open>Big-endian bytes\<close>

text \<open>\<open>be_digits n x\<close> are the \<open>n\<close> base-256 digits of \<open>x\<close>, most
  significant first: \<open>to_be_bytes\<close> of an \<open>8 * n\<close>-bit integer.\<close>

fun be_digits :: "nat \<Rightarrow> nat \<Rightarrow> bytes" where
  "be_digits 0 x = []"
| "be_digits (Suc n) x = word_of_nat (x div 256 ^ n) # be_digits n (x mod 256 ^ n)"

lemma length_be_digits [simp]: "length (be_digits n x) = n"
  by (induction n arbitrary: x) auto

lemma be_digit_inject:
  assumes "x < 256" and "y < 256"
  shows "(word_of_nat x :: u8) = word_of_nat y \<longleftrightarrow> x = y"
    and "(word_of_nat x :: u8) < word_of_nat y \<longleftrightarrow> x < y"
  using assms by (simp_all add: word_less_nat_alt word_unat_eq_iff unat_of_nat)

lemma lex_Cons [simp]: "((x::'a::linorder) # xs < y # ys) \<longleftrightarrow> x < y \<or> (x = y \<and> xs < ys)"
  by simp

lemma div_less_lex:
  fixes x y b :: nat
  assumes b: "0 < b"
  shows "x < y \<longleftrightarrow> x div b < y div b \<or> (x div b = y div b \<and> x mod b < y mod b)"
    and "x = y \<longleftrightarrow> x div b = y div b \<and> x mod b = y mod b"
proof -
  have mono: "u div b < v div b \<Longrightarrow> u < v" for u v
    by (metis div_le_mono linorder_not_less)
  have same: "x div b = y div b \<Longrightarrow> x < y \<longleftrightarrow> x mod b < y mod b"
    by (metis div_mult_mod_eq nat_add_left_cancel_less)
  show "x < y \<longleftrightarrow> x div b < y div b \<or> (x div b = y div b \<and> x mod b < y mod b)"
    using mono[of x y] mono[of y x] same by (metis linorder_cases order_less_asym)
  show "x = y \<longleftrightarrow> x div b = y div b \<and> x mod b = y mod b"
    by (metis div_mult_mod_eq)
qed

text \<open>Same-length big-endian encodings compare like the numbers they encode.\<close>

lemma be_digits_less:
  "x < 256 ^ n \<Longrightarrow> y < 256 ^ n \<Longrightarrow>
     be_digits n x @ r < be_digits n y @ s \<longleftrightarrow> x < y \<or> (x = y \<and> r < s)"
proof (induction n arbitrary: x y)
  case 0
  then show ?case by simp
next
  case (Suc n)
  let ?b = "(256::nat) ^ n"
  have b: "0 < ?b" by simp
  have dx: "x div ?b < 256" and dy: "y div ?b < 256"
    using Suc.prems by (simp_all add: less_mult_imp_div_less mult.commute)
  have ih: "be_digits n (x mod ?b) @ r < be_digits n (y mod ?b) @ s \<longleftrightarrow>
      x mod ?b < y mod ?b \<or> (x mod ?b = y mod ?b \<and> r < s)"
    by (rule Suc.IH) (simp_all add: b)
  note dm = div_less_lex[OF b, of x y]
  show ?case
    by (simp only: be_digits.simps append_Cons lex_Cons be_digit_inject[OF dx dy] ih dm)
      blast
qed

lemma be_digits_inject:
  assumes "x < 256 ^ n" and "y < 256 ^ n"
  shows "be_digits n x = be_digits n y \<longleftrightarrow> x = y"
proof
  assume e: "be_digits n x = be_digits n y"
  show "x = y"
  proof (rule ccontr)
    assume "x \<noteq> y"
    then have "x < y \<or> y < x" by arith
    then have "be_digits n x @ [] < be_digits n y @ [] \<or> be_digits n y @ [] < be_digits n x @ []"
      using be_digits_less[OF assms, of "[]" "[]"] be_digits_less[OF assms(2,1), of "[]" "[]"]
      by blast
    with e show False by simp
  qed
qed simp

definition to_be_bytes :: "u64 \<Rightarrow> bytes" where
  "to_be_bytes w = be_digits 8 (unat w)"

lemma unat_u64_bound: "unat (w::64 word) < 256 ^ 8"
  using unsigned_less[of w, where ?'a = nat] by simp

lemma length_to_be_bytes [simp]: "length (to_be_bytes w) = 8"
  by (simp add: to_be_bytes_def)

lemma to_be_bytes_inject [simp]: "to_be_bytes v = to_be_bytes w \<longleftrightarrow> v = w"
  using be_digits_inject[OF unat_u64_bound unat_u64_bound, of v w]
  by (simp add: to_be_bytes_def word_unat_eq_iff)

lemma to_be_bytes_less:
  "to_be_bytes v @ r < to_be_bytes w @ s \<longleftrightarrow> v < w \<or> (v = w \<and> r < s)"
  using be_digits_less[OF unat_u64_bound unat_u64_bound, of v r w s]
  by (simp add: to_be_bytes_def word_less_nat_alt word_unat_eq_iff)

section \<open>Key-sorted association lists\<close>

abbreviation key_sorted :: "('k::linorder \<times> 'v) list \<Rightarrow> bool" where
  "key_sorted xs \<equiv> sorted_wrt (<) (map fst xs)"

lemma key_sorted_distinct: "key_sorted xs \<Longrightarrow> distinct (map fst xs)"
  by (induction xs) fastforce+

text \<open>A key-sorted list is determined by the map it represents.\<close>

lemma key_sorted_unique:
  "key_sorted xs \<Longrightarrow> key_sorted ys \<Longrightarrow> map_of xs = map_of ys \<Longrightarrow> xs = ys"
proof -
  assume xs: "key_sorted xs" and ys: "key_sorted ys" and m: "map_of xs = map_of ys"
  note dx = key_sorted_distinct[OF xs] and dy = key_sorted_distinct[OF ys]
  have s: "set xs = set ys" using map_of_inject_set[OF dx dy] m by simp
  have "sorted (map fst xs)" "sorted (map fst ys)"
    using xs ys strict_sorted_imp_sorted by blast+
  moreover have "inj_on fst (set xs \<union> set ys)"
    using dx s by (simp add: distinct_map)
  moreover have "set (map fst xs) = set (map fst ys)" using s by simp
  ultimately have "map fst xs = map fst ys"
    using dx dy sorted_distinct_set_unique by blast
  with \<open>inj_on fst (set xs \<union> set ys)\<close> show "xs = ys"
    using map_inj_on by blast
qed

fun insert_sorted :: "'k::linorder \<Rightarrow> 'v \<Rightarrow> ('k \<times> 'v) list \<Rightarrow> ('k \<times> 'v) list" where
  "insert_sorted k v [] = [(k, v)]"
| "insert_sorted k v ((k', v') # xs) =
     (if k < k' then (k, v) # (k', v') # xs
      else if k = k' then (k, v) # xs
      else (k', v') # insert_sorted k v xs)"

lemma map_of_insert_sorted [simp]: "map_of (insert_sorted k v xs) = (map_of xs)(k \<mapsto> v)"
  by (induction k v xs rule: insert_sorted.induct) auto

lemma fst_set_insert_sorted: "fst ` set (insert_sorted k v xs) = insert k (fst ` set xs)"
  by (induction k v xs rule: insert_sorted.induct) auto

lemma key_sorted_insert [simp]: "key_sorted xs \<Longrightarrow> key_sorted (insert_sorted k v xs)"
proof (induction k v xs rule: insert_sorted.induct)
  case (2 k v k' v' xs)
  then show ?case using fst_set_insert_sorted[of k v xs] by (auto simp: less_trans)
qed simp

end
