(* ===== verification/CoreTypes.thy ===== *)
theory CoreTypes
  imports LedgerPrelude
begin

text \<open>
  The data model of \<^verbatim>\<open>ledgerfs-core\<close>: \<^verbatim>\<open>types.rs\<close> and \<^verbatim>\<open>errors.rs\<close>.
  A \<^verbatim>\<open>Uuid\<close> is its 128-bit value, a \<^verbatim>\<open>DateTime<Utc>\<close> its distance from the
  Unix epoch in nanoseconds (chrono's resolution; leap seconds, which \<^verbatim>\<open>Utc::now\<close>
  never returns, are left out), a \<^verbatim>\<open>String\<close> its UTF-8 bytes, a \<^verbatim>\<open>HashMap\<close> of
  strings a finite map. Money is a signed 64-bit word: the checked operations return the
  code's errors, the unchecked multiplication panics in a build with overflow checks and
  wraps without them.
\<close>

section \<open>Identifiers\<close>

type_synonym uuid = "128 word"
type_synonym DateTime = int

datatype AccountId = AccountId uuid
datatype TransactionId = TransactionId uuid
datatype EventId = EventId uuid

text \<open>The three \<^verbatim>\<open>new\<close> functions wrap the random identifier the uuid crate hands them.\<close>

definition account_id_new :: "uuid \<Rightarrow> AccountId" where
  "account_id_new v4 = AccountId v4"

definition transaction_id_new :: "uuid \<Rightarrow> TransactionId" where
  "transaction_id_new v4 = TransactionId v4"

definition event_id_new :: "uuid \<Rightarrow> EventId" where
  "event_id_new v4 = EventId v4"

fun account_uuid :: "AccountId \<Rightarrow> uuid" where "account_uuid (AccountId u) = u"
fun transaction_uuid :: "TransactionId \<Rightarrow> uuid" where "transaction_uuid (TransactionId u) = u"
fun event_uuid :: "EventId \<Rightarrow> uuid" where "event_uuid (EventId u) = u"

lemma account_uuid_inject [simp]: "account_uuid a = account_uuid b \<longleftrightarrow> a = b"
  by (cases a; cases b) simp

lemma event_uuid_inject [simp]: "event_uuid a = event_uuid b \<longleftrightarrow> a = b"
  by (cases a; cases b) simp

section \<open>Amounts\<close>

datatype Amount = Amount (amount_value: i64)

datatype Currency = Currency string

datatype AccountStatus = Active | Suspended | Closed

datatype AccountType = Customer | Operational | Safeguarding | Nostro | Vostro

datatype TransactionType = Debit | Credit | Transfer

record AccountMetadata =
  am_account_type :: AccountType
  am_currency :: Currency
  am_tags :: "(string, string) fmap"
  am_regulatory_flags :: "string list"

record Account =
  acc_id :: AccountId
  acc_status :: AccountStatus
  acc_metadata :: AccountMetadata
  acc_created_at :: DateTime
  acc_updated_at :: DateTime

record TransactionMetadata =
  tm_reference :: "string option"
  tm_description :: "string option"
  tm_tags :: "(string, string) fmap"
  tm_regulatory_flags :: "string list"

record Balance =
  bal_account_id :: AccountId
  bal_amount :: Amount
  bal_currency :: Currency
  bal_as_of :: DateTime
  bal_version :: u64

datatype MerkleNode =
  MerkleNode (mn_hash: string) (left_child: "MerkleNode option") (right_child: "MerkleNode option")

record MerkleProof =
  mp_leaf_hash :: string
  mp_root_hash :: string
  mp_proof_path :: "string list"
  mp_leaf_index :: nat

record LedgerDigest =
  ld_root_hash :: string
  ld_block_height :: u64
  ld_timestamp :: DateTime
  ld_transaction_count :: u64

section \<open>Errors\<close>

datatype LedgerError =
    AccountNotFound AccountId
  | TransactionNotFound TransactionId
  | InsufficientFunds AccountId Amount Amount
  | AccountNotActive AccountId AccountStatus
  | CurrencyMismatch Currency Currency
  | AmountOverflow
  | AmountUnderflow
  | InvalidAmount Amount
  | DuplicateTransaction TransactionId
  | DuplicateAccount AccountId
  | ConcurrencyConflict u64 u64
  | CommandValidationFailed "string list"
  | EventStoreFailure string
  | SerializationFailure string
  | CryptographicError string
  | MerkleProofVerificationFailed
  | DigestVerificationFailed
  | StorageError string
  | NetworkError string
  | ConfigurationError string
  | PermissionDenied string
  | RateLimitExceeded
  | ServiceUnavailable string
  | Timeout string
  | Internal string

definition event_store_error :: "string \<Rightarrow> LedgerError" where
  "event_store_error message = EventStoreFailure message"
definition serialization_error :: "string \<Rightarrow> LedgerError" where
  "serialization_error message = SerializationFailure message"
definition cryptographic_error :: "string \<Rightarrow> LedgerError" where
  "cryptographic_error message = CryptographicError message"
definition storage_error :: "string \<Rightarrow> LedgerError" where
  "storage_error message = StorageError message"
definition network_error :: "string \<Rightarrow> LedgerError" where
  "network_error message = NetworkError message"
definition configuration_error :: "string \<Rightarrow> LedgerError" where
  "configuration_error message = ConfigurationError message"
definition permission_denied_error :: "string \<Rightarrow> LedgerError" where
  "permission_denied_error operation = PermissionDenied operation"
definition service_unavailable_error :: "string \<Rightarrow> LedgerError" where
  "service_unavailable_error service = ServiceUnavailable service"
definition timeout_error :: "string \<Rightarrow> LedgerError" where
  "timeout_error operation = Timeout operation"
definition internal_error :: "string \<Rightarrow> LedgerError" where
  "internal_error message = Internal message"

datatype FuseError =
    FileNotFound string
  | FusePermissionDenied string
  | InvalidPath string
  | IoError string
  | FuseLedgerError LedgerError

definition fuse_error_of_ledger :: "LedgerError \<Rightarrow> FuseError" where
  "fuse_error_of_ledger e = FuseLedgerError e"

section \<open>Arithmetic on amounts\<close>

text \<open>A call that may panic: \<^verbatim>\<open>Panic\<close>, or the value it returns; sequencing, \<^verbatim>\<open>unwrap\<close> and
  \<^verbatim>\<open>assert!\<close>. \<open>unwrap_state\<close> goes on with the state a call left behind.\<close>

datatype 'a run = Panic | Return 'a

fun run_bind :: "'a run \<Rightarrow> ('a \<Rightarrow> 'b run) \<Rightarrow> 'b run" where
  "run_bind Panic f = Panic"
| "run_bind (Return x) f = f x"

fun unwrap :: "'e + 'a \<Rightarrow> 'a run" where
  "unwrap (Inl e) = Panic"
| "unwrap (Inr x) = Return x"

fun unwrap_state :: "('e + 'a) \<times> 's \<Rightarrow> 's run" where
  "unwrap_state (Inl e, s) = Panic"
| "unwrap_state (Inr x, s) = Return s"

definition asserting :: "bool \<Rightarrow> unit run" where
  "asserting b = (if b then Return () else Panic)"

lemma asserting_simps [simp]: "asserting True = Return ()" "asserting False = Panic"
  by (simp_all add: asserting_def)

lemma run_bind_Return_iff: "run_bind r f = Return y \<longleftrightarrow> (\<exists>x. r = Return x \<and> f x = Return y)"
  by (cases r) auto

lemma unwrap_Return_iff [simp]: "unwrap r = Return x \<longleftrightarrow> r = Inr x"
  by (cases r) auto

lemma unwrap_state_Return_iff: "unwrap_state p = Return s \<longleftrightarrow> (\<exists>x. p = (Inr x, s))"
  by (cases p rule: unwrap_state.cases) auto

lemma asserting_Return_iff [simp]: "asserting b = Return u \<longleftrightarrow> b"
  by (simp add: asserting_def)

definition i64_min :: int where "i64_min = - (2 ^ 63)"
definition i64_max :: int where "i64_max = 2 ^ 63 - 1"

definition in_i64 :: "int \<Rightarrow> bool" where
  "in_i64 x \<longleftrightarrow> i64_min \<le> x \<and> x \<le> i64_max"

definition checked_add :: "i64 \<Rightarrow> i64 \<Rightarrow> i64 option" where
  "checked_add a b = (if in_i64 (sint a + sint b) then Some (a + b) else None)"

definition checked_sub :: "i64 \<Rightarrow> i64 \<Rightarrow> i64 option" where
  "checked_sub a b = (if in_i64 (sint a - sint b) then Some (a - b) else None)"

definition mul_i64 :: "bool \<Rightarrow> i64 \<Rightarrow> i64 \<Rightarrow> i64 run" where
  "mul_i64 overflow_checks a b =
     (if overflow_checks \<and> \<not> in_i64 (sint a * sint b) then Panic else Return (a * b))"

definition amount_new :: "i64 \<Rightarrow> Amount" where
  "amount_new value = Amount value"

definition amount_zero :: Amount where
  "amount_zero = Amount 0"

definition from_major_units :: "bool \<Rightarrow> i64 \<Rightarrow> i64 \<Rightarrow> Amount run" where
  "from_major_units overflow_checks major minor_units_per_major =
     (case mul_i64 overflow_checks major minor_units_per_major of
        Panic \<Rightarrow> Panic
      | Return value \<Rightarrow> Return (Amount value))"

definition amount_add :: "Amount \<Rightarrow> Amount \<Rightarrow> LedgerError + Amount" where
  "amount_add a b =
     (case checked_add (amount_value a) (amount_value b) of
        Some value \<Rightarrow> Ok (Amount value)
      | None \<Rightarrow> Err AmountOverflow)"

definition amount_subtract :: "Amount \<Rightarrow> Amount \<Rightarrow> LedgerError + Amount" where
  "amount_subtract a b =
     (case checked_sub (amount_value a) (amount_value b) of
        Some value \<Rightarrow> Ok (Amount value)
      | None \<Rightarrow> Err AmountUnderflow)"

definition is_positive :: "Amount \<Rightarrow> bool" where
  "is_positive a \<longleftrightarrow> sint (amount_value a) > 0"

definition is_negative :: "Amount \<Rightarrow> bool" where
  "is_negative a \<longleftrightarrow> sint (amount_value a) < 0"

definition is_zero :: "Amount \<Rightarrow> bool" where
  "is_zero a \<longleftrightarrow> sint (amount_value a) = 0"

lemma cents_eqD: "sint (amount_value a) = sint (amount_value b) \<Longrightarrow> a = b"
proof (rule Amount.expand)
  assume "sint (amount_value a) = sint (amount_value b)"
  then have "(word_of_int (sint (amount_value a)) :: i64) = word_of_int (sint (amount_value b))"
    by (rule arg_cong)
  then show "amount_value a = amount_value b" by simp
qed

text \<open>The derived \<^verbatim>\<open>Ord\<close> of \<^verbatim>\<open>Amount\<close> compares the signed values.\<close>

instantiation Amount :: linorder
begin

definition less_eq_Amount :: "Amount \<Rightarrow> Amount \<Rightarrow> bool" where
  "a \<le> b \<longleftrightarrow> sint (amount_value a) \<le> sint (amount_value b)"

definition less_Amount :: "Amount \<Rightarrow> Amount \<Rightarrow> bool" where
  "a < b \<longleftrightarrow> sint (amount_value a) < sint (amount_value b)"

instance
  by standard
    (auto simp: less_eq_Amount_def less_Amount_def dest: cents_eqD)

end

section \<open>Currencies\<close>

text \<open>\<^verbatim>\<open>str::to_uppercase\<close> works from the Unicode tables, so it is a parameter.\<close>

definition currency_new :: "(string \<Rightarrow> string) \<Rightarrow> string \<Rightarrow> Currency" where
  "currency_new to_uppercase code = Currency (to_uppercase code)"

definition currency_usd :: Currency where "currency_usd = Currency ''USD''"
definition currency_eur :: Currency where "currency_eur = Currency ''EUR''"

section \<open>Lemmas\<close>

abbreviation cents :: "Amount \<Rightarrow> int" where
  "cents a \<equiv> sint (amount_value a)"

lemma cents_inject [simp]: "cents a = cents b \<longleftrightarrow> a = b"
  by (auto dest: cents_eqD)

lemma sint_in_i64: "in_i64 (sint (w :: i64))"
  using sint_ge[of w] sint_lt[of w] by (simp add: in_i64_def i64_min_def i64_max_def)

lemma signed_take_bit_i64: "in_i64 x \<Longrightarrow> signed_take_bit 63 x = x"
  by (simp add: in_i64_def i64_min_def i64_max_def signed_take_bit_int_eq_self)

lemma sint_word_of_int_i64: "in_i64 x \<Longrightarrow> sint (word_of_int x :: i64) = x"
  by (simp add: signed_of_int signed_take_bit_i64)

text \<open>A wrapping operation gives the exact result exactly when that result fits.\<close>

lemma sint_exact_iff:
  fixes a b :: i64
  shows "sint (a + b) = sint a + sint b \<longleftrightarrow> in_i64 (sint a + sint b)"
    and "sint (a - b) = sint a - sint b \<longleftrightarrow> in_i64 (sint a - sint b)"
    and "sint (a * b) = sint a * sint b \<longleftrightarrow> in_i64 (sint a * sint b)"
  using sint_in_i64[of "a + b"] sint_in_i64[of "a - b"] sint_in_i64[of "a * b"]
  by (auto simp: sint_word_add sint_word_diff sint_word_mult signed_take_bit_i64)

lemma amount_add_Ok_iff: "amount_add a b = Inr c \<longleftrightarrow> cents c = cents a + cents b"
proof (cases "in_i64 (cents a + cents b)")
  case True
  then show ?thesis
    by (auto simp: amount_add_def checked_add_def sint_exact_iff intro!: cents_eqD)
next
  case False
  then show ?thesis
    using sint_in_i64 [of "amount_value c"] by (auto simp: amount_add_def checked_add_def)
qed

lemma amount_subtract_Ok_iff: "amount_subtract a b = Inr c \<longleftrightarrow> cents c = cents a - cents b"
proof (cases "in_i64 (cents a - cents b)")
  case True
  then show ?thesis
    by (auto simp: amount_subtract_def checked_sub_def sint_exact_iff
        intro!: cents_eqD)
next
  case False
  then show ?thesis
    using sint_in_i64 [of "amount_value c"] by (auto simp: amount_subtract_def checked_sub_def)
qed

lemma amount_add_Err_iff:
  "amount_add a b = Inl e \<longleftrightarrow> e = AmountOverflow \<and> \<not> in_i64 (cents a + cents b)"
  by (auto simp: amount_add_def checked_add_def)

lemma amount_subtract_Err_iff:
  "amount_subtract a b = Inl e \<longleftrightarrow> e = AmountUnderflow \<and> \<not> in_i64 (cents a - cents b)"
  by (auto simp: amount_subtract_def checked_sub_def)

section \<open>Properties\<close>

text \<open>C39: The checked operations on amounts are exact. \<open>add\<close> returns \<open>c\<close> just when
  \<open>c\<close> is the mathematical sum and reports \<open>AmountOverflow\<close> just when that sum does not
  fit an \<open>i64\<close>; \<open>subtract\<close> likewise with \<open>AmountUnderflow\<close>; and each undoes the other.\<close>

theorem amount_arithmetic_exact:
  "(amount_add a b = Ok c \<longleftrightarrow> cents c = cents a + cents b)
   \<and> (amount_add a b = Err e \<longleftrightarrow> e = AmountOverflow \<and> \<not> in_i64 (cents a + cents b))
   \<and> (amount_subtract a b = Ok c \<longleftrightarrow> cents c = cents a - cents b)
   \<and> (amount_subtract a b = Err e \<longleftrightarrow> e = AmountUnderflow \<and> \<not> in_i64 (cents a - cents b))
   \<and> (amount_add a b = Ok c \<longleftrightarrow> amount_subtract c b = Ok a)"
  by (auto simp: amount_add_Ok_iff amount_subtract_Ok_iff amount_add_Err_iff
      amount_subtract_Err_iff)

text \<open>\<open>from_major_units\<close> is not a checked operation. Built with overflow checks it
  panics just when the product does not fit; built without them (the release profile) it
  always returns, and what it returns is the product only when the product fits.\<close>

theorem from_major_units_overflow:
  "(from_major_units True m n = Panic \<longleftrightarrow> \<not> in_i64 (sint m * sint n))
   \<and> (\<exists>a. from_major_units False m n = Return a
        \<and> (cents a = sint m * sint n \<longleftrightarrow> in_i64 (sint m * sint n)))"
  by (simp add: from_major_units_def mul_i64_def sint_exact_iff)

end
