(* ===== verification/CoreEvents.thy ===== *)
theory CoreEvents
  imports CoreTypes
begin

text \<open>
  The event schema of \<^verbatim>\<open>events.rs\<close> and the command schema of \<^verbatim>\<open>commands.rs\<close>:
  one record per struct, one datatype per enum, the two envelope constructors with the
  random identifier and the clock reading they use as arguments, and the type names they
  write into an envelope.
\<close>

section \<open>Events\<close>

record EventMetadata =
  correlation_id :: "string option"
  causation_id :: "string option"
  user_id :: "string option"
  source :: string

record AccountCreatedEvent =
  ac_account_id :: AccountId
  ac_account_type :: AccountType
  ac_currency :: Currency
  ac_initial_balance :: Amount
  ac_metadata :: AccountMetadata
  ac_created_at :: DateTime

record AccountStatusChangedEvent =
  sc_account_id :: AccountId
  sc_old_status :: AccountStatus
  sc_new_status :: AccountStatus
  sc_reason :: "string option"
  sc_changed_at :: DateTime

record AccountMetadataUpdatedEvent =
  mu_account_id :: AccountId
  mu_old_metadata :: AccountMetadata
  mu_new_metadata :: AccountMetadata
  mu_updated_at :: DateTime

record TransactionProcessedEvent =
  tp_transaction_id :: TransactionId
  tp_transaction_type :: TransactionType
  tp_from_account :: "AccountId option"
  tp_to_account :: "AccountId option"
  tp_amount :: Amount
  tp_currency :: Currency
  tp_metadata :: TransactionMetadata
  tp_processed_at :: DateTime

record BalanceUpdatedEvent =
  bu_account_id :: AccountId
  bu_old_balance :: Amount
  bu_new_balance :: Amount
  bu_currency :: Currency
  bu_transaction_id :: "TransactionId option"
  bu_updated_at :: DateTime

record MerkleRootGeneratedEvent =
  mr_block_height :: u64
  mr_root_hash :: string
  mr_transaction_count :: u64
  mr_previous_root_hash :: "string option"
  mr_generated_at :: DateTime

record DigestPublishedEvent =
  dp_digest :: LedgerDigest
  dp_storage_location :: string
  dp_published_at :: DateTime

datatype LedgerEvent =
    AccountCreated AccountCreatedEvent
  | AccountStatusChanged AccountStatusChangedEvent
  | AccountMetadataUpdated AccountMetadataUpdatedEvent
  | TransactionProcessed TransactionProcessedEvent
  | BalanceUpdated BalanceUpdatedEvent
  | MerkleRootGenerated MerkleRootGeneratedEvent
  | DigestPublished DigestPublishedEvent

record EventEnvelope =
  event_id :: EventId
  event_type :: string
  aggregate_id :: string
  aggregate_version :: u64
  timestamp :: DateTime
  event_data :: LedgerEvent
  metadata :: EventMetadata

definition event_metadata_default :: EventMetadata where
  "event_metadata_default =
     \<lparr>correlation_id = None, causation_id = None, user_id = None, source = ''ledgerfs''\<rparr>"

fun event_type_name :: "LedgerEvent \<Rightarrow> string" where
  "event_type_name (AccountCreated _) = ''AccountCreated''"
| "event_type_name (AccountStatusChanged _) = ''AccountStatusChanged''"
| "event_type_name (AccountMetadataUpdated _) = ''AccountMetadataUpdated''"
| "event_type_name (TransactionProcessed _) = ''TransactionProcessed''"
| "event_type_name (BalanceUpdated _) = ''BalanceUpdated''"
| "event_type_name (MerkleRootGenerated _) = ''MerkleRootGenerated''"
| "event_type_name (DigestPublished _) = ''DigestPublished''"

text \<open>\<open>v4\<close> is the identifier \<^verbatim>\<open>EventId::new\<close> draws, \<open>now\<close> the reading of \<^verbatim>\<open>Utc::now\<close>.\<close>

definition event_envelope_new ::
  "uuid \<Rightarrow> DateTime \<Rightarrow> string \<Rightarrow> u64 \<Rightarrow> LedgerEvent \<Rightarrow> EventMetadata \<Rightarrow> EventEnvelope" where
  "event_envelope_new v4 now agg_id agg_version data md =
     \<lparr>event_id = event_id_new v4, event_type = event_type_name data, aggregate_id = agg_id,
      aggregate_version = agg_version, timestamp = now, event_data = data, metadata = md\<rparr>"

text \<open>\<^verbatim>\<open>calculate_hash\<close>: serde_json, sha2 and hex are parameters; \<open>to_json\<close> returns
  \<open>None\<close> where serde_json fails, and \<^verbatim>\<open>expect\<close> panics.\<close>

definition calculate_hash ::
  "(EventEnvelope \<Rightarrow> string option) \<Rightarrow> (bytes \<Rightarrow> bytes) \<Rightarrow> (bytes \<Rightarrow> string) \<Rightarrow> EventEnvelope
     \<Rightarrow> string run" where
  "calculate_hash to_json sha256 hex_encode envelope =
     (case to_json envelope of
        None \<Rightarrow> Panic
      | Some serialized \<Rightarrow> Return (hex_encode (sha256 (map of_char serialized))))"

section \<open>Commands\<close>

record CommandMetadata =
  c_correlation_id :: "string option"
  c_user_id :: "string option"
  c_source :: string
  c_idempotency_key :: "string option"

record CreateAccountCommand =
  ca_account_id :: AccountId
  ca_account_type :: AccountType
  ca_currency :: Currency
  ca_initial_balance :: Amount
  ca_metadata :: AccountMetadata

record ChangeAccountStatusCommand =
  cs_account_id :: AccountId
  cs_new_status :: AccountStatus
  cs_reason :: "string option"

record UpdateAccountMetadataCommand =
  um_account_id :: AccountId
  um_new_metadata :: AccountMetadata

record ProcessTransactionCommand =
  pt_transaction_id :: TransactionId
  pt_transaction_type :: TransactionType
  pt_from_account :: "AccountId option"
  pt_to_account :: "AccountId option"
  pt_amount :: Amount
  pt_currency :: Currency
  pt_metadata :: TransactionMetadata

record GenerateMerkleRootCommand =
  gm_block_height :: u64
  gm_transaction_ids :: "TransactionId list"

record PublishDigestCommand =
  pd_digest :: LedgerDigest
  pd_storage_location :: string

datatype LedgerCommand =
    CreateAccount CreateAccountCommand
  | ChangeAccountStatus ChangeAccountStatusCommand
  | UpdateAccountMetadata UpdateAccountMetadataCommand
  | ProcessTransaction ProcessTransactionCommand
  | GenerateMerkleRoot GenerateMerkleRootCommand
  | PublishDigest PublishDigestCommand

record CommandEnvelope =
  command_id :: string
  command_type :: string
  c_aggregate_id :: string
  expected_version :: "u64 option"
  c_timestamp :: DateTime
  command_data :: LedgerCommand
  c_metadata :: CommandMetadata

fun command_type_name :: "LedgerCommand \<Rightarrow> string" where
  "command_type_name (CreateAccount _) = ''CreateAccount''"
| "command_type_name (ChangeAccountStatus _) = ''ChangeAccountStatus''"
| "command_type_name (UpdateAccountMetadata _) = ''UpdateAccountMetadata''"
| "command_type_name (ProcessTransaction _) = ''ProcessTransaction''"
| "command_type_name (GenerateMerkleRoot _) = ''GenerateMerkleRoot''"
| "command_type_name (PublishDigest _) = ''PublishDigest''"

text \<open>\<open>uuid_to_string\<close> is the uuid crate's \<^verbatim>\<open>Display\<close>.\<close>

definition command_envelope_new ::
  "(uuid \<Rightarrow> string) \<Rightarrow> uuid \<Rightarrow> DateTime \<Rightarrow> string \<Rightarrow> u64 option \<Rightarrow> LedgerCommand \<Rightarrow> CommandMetadata
     \<Rightarrow> CommandEnvelope" where
  "command_envelope_new uuid_to_string v4 now agg_id version data md =
     \<lparr>command_id = uuid_to_string v4, command_type = command_type_name data,
      c_aggregate_id = agg_id, expected_version = version, c_timestamp = now,
      command_data = data, c_metadata = md\<rparr>"

definition command_metadata_default :: CommandMetadata where
  "command_metadata_default =
     \<lparr>c_correlation_id = None, c_user_id = None, c_source = ''ledgerfs'', c_idempotency_key = None\<rparr>"

datatype CommandValidationResult = Valid | Invalid "string list"

fun is_valid :: "CommandValidationResult \<Rightarrow> bool" where
  "is_valid Valid \<longleftrightarrow> True"
| "is_valid (Invalid _) \<longleftrightarrow> False"

fun validation_errors :: "CommandValidationResult \<Rightarrow> string list" where
  "validation_errors Valid = []"
| "validation_errors (Invalid errs) = errs"

text \<open>A valid result carries no error; the converse fails, since \<open>Invalid []\<close> is a value.\<close>

lemma valid_no_errors: "is_valid r \<Longrightarrow> validation_errors r = []"
  by (cases r) auto

lemma event_envelope_new_simps [simp, ledger_simps]:
  "event_id (event_envelope_new v4 now a n d m) = EventId v4"
  "event_type (event_envelope_new v4 now a n d m) = event_type_name d"
  "aggregate_id (event_envelope_new v4 now a n d m) = a"
  "timestamp (event_envelope_new v4 now a n d m) = now"
  "event_data (event_envelope_new v4 now a n d m) = d"
  by (simp_all add: event_envelope_new_def event_id_new_def)

end
