(* ===== verification/PathResolver.thy ===== *)
theory PathResolver
  imports CoreTypes
begin

text \<open>
  \<^verbatim>\<open>path_resolver.rs\<close>: the paths of the mounted filesystem, how identifiers are parsed out of
  them, and how a path is classified. The uuid crate's \<^verbatim>\<open>Display\<close> and \<^verbatim>\<open>parse_str\<close> are
  parameters; what the round trips need of them is the locale \<open>uuid_text\<close>.
\<close>

section \<open>The text of identifiers\<close>

text \<open>\<open>parse_str\<close> returns \<open>None\<close> where the crate returns an error, which the code drops.\<close>

record UuidText =
  uuid_to_string :: "uuid \<Rightarrow> string"
  parse_str :: "string \<Rightarrow> uuid option"

text \<open>Documented: the hyphenated form is made of hexadecimal digits and hyphens, and parses back.\<close>

locale uuid_text =
  fixes U :: UuidText
  assumes parse_to_string: "parse_str U (uuid_to_string U u) = Some u"
    and uuid_chars: "set (uuid_to_string U u) \<subseteq> set ''0123456789abcdef-''"
begin

lemma uuid_no_slash: "CHR ''/'' \<notin> set (uuid_to_string U u)"
  using uuid_chars[of u] by auto

end

section \<open>The resolver\<close>

definition slash :: char where "slash = CHR ''/''"

definition parse_account_id :: "UuidText \<Rightarrow> string \<Rightarrow> FuseError + AccountId" where
  "parse_account_id U path =
     (let parts = split_on slash path in
      if length parts < 3 \<or> parts ! 1 \<noteq> ''accounts'' then Err (InvalidPath path)
      else case parse_str U (parts ! 2) of
          None \<Rightarrow> Err (InvalidPath path)
        | Some u \<Rightarrow> Ok (AccountId u))"

definition parse_transaction_id :: "UuidText \<Rightarrow> string \<Rightarrow> FuseError + TransactionId" where
  "parse_transaction_id U path =
     (let parts = split_on slash path in
      if length parts < 3 \<or> parts ! 1 \<noteq> ''transactions'' then Err (InvalidPath path)
      else case strip_suffix (parts ! 2) ''.json'' of
          None \<Rightarrow> Err (InvalidPath path)
        | Some tx_id_str \<Rightarrow>
            (case parse_str U tx_id_str of
               None \<Rightarrow> Err (InvalidPath path)
             | Some u \<Rightarrow> Ok (TransactionId u)))"

definition is_directory :: "string \<Rightarrow> bool" where
  "is_directory path \<longleftrightarrow>
     path \<in> {''/'', ''/accounts'', ''/transactions'', ''/docs''}
     \<or> starts_with path ''/accounts/'' \<and> count_list path slash = 2
     \<or> starts_with path ''/docs/'' \<and> count_list path slash = 2"

definition is_valid_file :: "string \<Rightarrow> bool" where
  "is_valid_file path \<longleftrightarrow>
     ends_with path ''/balance.json'' \<or> ends_with path ''/tx.log'' \<or> ends_with path ''/snapshot.json''
     \<or> starts_with path ''/transactions/'' \<and> ends_with path ''.json''
     \<or> starts_with path ''/docs/'' \<and> (ends_with path ''.json'' \<or> ends_with path ''.pdf'')"

datatype FileType = DirectoryType | Json | Log | Pdf | Unknown

definition get_file_type :: "string \<Rightarrow> FileType" where
  "get_file_type path =
     (if is_directory path then DirectoryType
      else if ends_with path ''.json'' then Json
      else if ends_with path ''.log'' then Log
      else if ends_with path ''.pdf'' then Pdf
      else Unknown)"

fun mime_type :: "FileType \<Rightarrow> string" where
  "mime_type Json = ''application/json''"
| "mime_type Log = ''text/plain''"
| "mime_type Pdf = ''application/pdf''"
| "mime_type DirectoryType = ''inode/directory''"
| "mime_type Unknown = ''application/octet-stream''"

fun is_text :: "FileType \<Rightarrow> bool" where
  "is_text Json \<longleftrightarrow> True"
| "is_text Log \<longleftrightarrow> True"
| "is_text _ \<longleftrightarrow> False"

definition account_path :: "UuidText \<Rightarrow> AccountId \<Rightarrow> string" where
  "account_path U a = ''/accounts/'' @ uuid_to_string U (account_uuid a)"

definition balance_path :: "UuidText \<Rightarrow> AccountId \<Rightarrow> string" where
  "balance_path U a = ''/accounts/'' @ uuid_to_string U (account_uuid a) @ ''/balance.json''"

definition transaction_log_path :: "UuidText \<Rightarrow> AccountId \<Rightarrow> string" where
  "transaction_log_path U a = ''/accounts/'' @ uuid_to_string U (account_uuid a) @ ''/tx.log''"

definition snapshot_path :: "UuidText \<Rightarrow> AccountId \<Rightarrow> string \<Rightarrow> string" where
  "snapshot_path U a time =
     ''/accounts/'' @ uuid_to_string U (account_uuid a) @ ''/snapshot_'' @ time @ ''.json''"

definition transaction_path :: "UuidText \<Rightarrow> TransactionId \<Rightarrow> string" where
  "transaction_path U t = ''/transactions/'' @ uuid_to_string U (transaction_uuid t) @ ''.json''"

definition document_path :: "string \<Rightarrow> string \<Rightarrow> string \<Rightarrow> string" where
  "document_path entity_type entity_id doc_name =
     ''/docs/'' @ entity_type @ ''/'' @ entity_id @ ''/'' @ doc_name"

section \<open>Lemmas\<close>

lemma split_account:
  "split_on slash (''/accounts/'' @ s) = [''''] @ [''accounts''] @ split_on slash s"
  by (simp add: slash_def)

lemma split_transactions:
  "split_on slash (''/transactions/'' @ s) = [''''] @ [''transactions''] @ split_on slash s"
  by (simp add: slash_def)

lemma account_uuid_id [simp]: "AccountId (account_uuid a) = a"
  by (cases a) simp

lemma transaction_uuid_id [simp]: "TransactionId (transaction_uuid t) = t"
  by (cases t) simp

context uuid_text
begin

lemma parse_account_segment:
  assumes "rest = [] \<or> hd rest = slash"
  shows "parse_account_id U (''/accounts/'' @ uuid_to_string U u @ rest) = Inr (AccountId u)"
proof -
  have "\<exists>ps. split_on slash (uuid_to_string U u @ rest) = uuid_to_string U u # ps"
  proof (cases rest)
    case Nil
    then show ?thesis using uuid_no_slash[of u] by (simp add: slash_def)
  next
    case (Cons c cs)
    then have "c = slash" using assms by simp
    then show ?thesis using Cons uuid_no_slash[of u] split_on_sep[of slash "uuid_to_string U u" cs]
      by (simp add: slash_def)
  qed
  then obtain ps where "split_on slash (''/accounts/'' @ uuid_to_string U u @ rest) =
      [''''] @ [''accounts''] @ uuid_to_string U u # ps"
    using split_account by metis
  then show ?thesis by (simp add: parse_account_id_def Let_def parse_to_string)
qed

lemma parse_transaction_segment:
  "parse_transaction_id U (''/transactions/'' @ uuid_to_string U u @ ''.json'') = Inr (TransactionId u)"
proof -
  have free: "slash \<notin> set (uuid_to_string U u @ ''.json'')"
    using uuid_no_slash[of u] by (simp add: slash_def)
  have "split_on slash (''/transactions/'' @ uuid_to_string U u @ ''.json'') =
      [''''] @ [''transactions''] @ [uuid_to_string U u @ ''.json'']"
    unfolding split_transactions split_on_free[OF free] ..
  then show ?thesis by (simp add: parse_transaction_id_def Let_def parse_to_string)
qed

lemma uuid_count [simp]: "count_list (uuid_to_string U u) slash = 0"
  using uuid_no_slash[of u] by (simp add: slash_def)

end

text \<open>The last segment of a path decides the suffix tests that start with a slash.\<close>

lemma ends_with_segment:
  assumes "slash \<notin> set name" and "slash \<notin> set n"
  shows "ends_with (p @ slash # name) (slash # n) \<longleftrightarrow> name = n"
proof
  assume "ends_with (p @ slash # name) (slash # n)"
  then obtain q where "p @ slash # name = q @ slash # n" by (auto simp: ends_with_suffix suffix_def)
  then have "takeWhile ((\<noteq>) slash) (rev (p @ slash # name)) = takeWhile ((\<noteq>) slash) (rev (q @ slash # n))"
    by simp
  moreover have tw: "takeWhile ((\<noteq>) slash) (rev (r @ slash # m)) = rev m" if "slash \<notin> set m" for r m
  proof -
    have "takeWhile ((\<noteq>) slash) (rev m @ slash # rev r) = rev m @ takeWhile ((\<noteq>) slash) (slash # rev r)"
      using that by (intro takeWhile_append2) auto
    then show ?thesis by simp
  qed
  ultimately have "rev name = rev n" unfolding tw[OF assms(1)] tw[OF assms(2)] by blast
  then show "name = n" by simp
next
  assume "name = n"
  then show "ends_with (p @ slash # name) (slash # n)" by (rule ssubst) (rule ends_with_append)
qed

lemma ends_with_json [simp]: "ends_with (a # b # c # s @ ''.json'') ''.json''"
  using ends_with_append[of "a # b # c # s" "''.json''"] by simp

section \<open>A reference instance\<close>

text \<open>Identifiers as 128 binary digits.\<close>

definition binary_uuid :: UuidText where
  "binary_uuid =
     \<lparr>uuid_to_string = (\<lambda>u. map (\<lambda>i. if bit u i then CHR ''1'' else CHR ''0'') [0..<128]),
      parse_str = (\<lambda>s. if length s = 128
         then Some (horner_sum of_bool 2 (map (\<lambda>c. c = CHR ''1'') s)) else None)\<rparr>"

lemma horner_bits: "horner_sum of_bool 2 (map (bit (u :: uuid)) [0..<128]) = u"
  using horner_sum_bit_eq_take_bit[of u 128] by (simp add: take_bit_word_eq_self)

interpretation binary: uuid_text binary_uuid
proof
  have "map ((\<lambda>c. c = CHR ''1'') \<circ> (\<lambda>i. if bit u i then CHR ''1'' else CHR ''0'')) [0..<128]
      = map (bit u) [0..<128]" for u :: uuid
    by (rule map_cong) auto
  then show "parse_str binary_uuid (uuid_to_string binary_uuid u) = Some u" for u
    unfolding binary_uuid_def by (simp only: UuidText.simps map_map horner_bits) simp
  show "set (uuid_to_string binary_uuid u) \<subseteq> set ''0123456789abcdef-''" for u
    by (auto simp: binary_uuid_def)
qed

lemma binary_uuid_text: "uuid_text binary_uuid"
  by (rule binary.uuid_text_axioms)

section \<open>Properties\<close>

text \<open>C38: The generated paths parse back to the identifier they were made from: the four account
  paths to their account, the transaction path to its transaction.\<close>

theorem path_roundtrip:
  assumes "uuid_text U"
  shows "parse_account_id U (account_path U a) = Ok a
    \<and> parse_account_id U (balance_path U a) = Ok a
    \<and> parse_account_id U (transaction_log_path U a) = Ok a
    \<and> parse_account_id U (snapshot_path U a time) = Ok a
    \<and> parse_transaction_id U (transaction_path U t) = Ok t"
  using uuid_text.parse_account_segment[OF assms, of "[]" "account_uuid a"]
    uuid_text.parse_account_segment[OF assms, of "''/balance.json''" "account_uuid a"]
    uuid_text.parse_account_segment[OF assms, of "''/tx.log''" "account_uuid a"]
    uuid_text.parse_account_segment[OF assms, of "''/snapshot_'' @ time @ ''.json''" "account_uuid a"]
    uuid_text.parse_transaction_segment[OF assms, of "transaction_uuid t"]
  by (simp add: account_path_def balance_path_def transaction_log_path_def snapshot_path_def
      transaction_path_def slash_def)

theorem path_roundtrip_witness:
  "parse_account_id binary_uuid (balance_path binary_uuid (AccountId 5)) = Ok (AccountId 5)"
  using path_roundtrip[OF binary_uuid_text, of "AccountId 5"] by simp

text \<open>How the generated paths are classified: an account's path is a directory and no file, its
  balance and its transaction log and a transaction's path are files and no directories, of the type
  their suffix says; a snapshot's path is typed as JSON and yet not accepted as a file.\<close>

theorem path_classification:
  assumes "uuid_text U" and "slash \<notin> set time"
  shows "is_directory (account_path U a) \<and> \<not> is_valid_file (account_path U a)
    \<and> is_valid_file (balance_path U a) \<and> get_file_type (balance_path U a) = Json
    \<and> is_valid_file (transaction_log_path U a) \<and> get_file_type (transaction_log_path U a) = Log
    \<and> is_valid_file (transaction_path U t) \<and> get_file_type (transaction_path U t) = Json
    \<and> \<not> is_valid_file (snapshot_path U a time) \<and> get_file_type (snapshot_path U a time) = Json"
proof -
  let ?u = "uuid_to_string U (account_uuid a)" and ?t = "uuid_to_string U (transaction_uuid t)"
  have count: "count_list ?u slash = 0" "count_list ?t slash = 0"
    using uuid_text.uuid_count[OF assms(1)] by blast+
  have hex: "set ?u \<subseteq> set ''0123456789abcdef-''" by (rule uuid_text.uuid_chars[OF assms(1)])
  then have free: "slash \<notin> set ?u" by (auto simp: slash_def)
  have "?u \<noteq> ''balance.json''" "?u \<noteq> ''tx.log''" "?u \<noteq> ''snapshot.json''"
    using hex by auto
  then have 1: "is_directory (account_path U a) \<and> \<not> is_valid_file (account_path U a)"
    using ends_with_segment[OF free, of "''balance.json''" "''/accounts''"]
      ends_with_segment[OF free, of "''tx.log''" "''/accounts''"]
      ends_with_segment[OF free, of "''snapshot.json''" "''/accounts''"]
    by (simp add: account_path_def is_directory_def is_valid_file_def count[unfolded slash_def]
        starts_with_def slash_def)
  have files: "ends_with (balance_path U a) ''/balance.json''" "ends_with (transaction_log_path U a) ''/tx.log''"
    "ends_with (balance_path U a) ''.json''" "ends_with (transaction_log_path U a) ''.log''"
    "ends_with (transaction_path U t) ''.json''" "ends_with (snapshot_path U a time) ''.json''"
    by (simp_all add: ends_with_suffix suffix_def balance_path_def transaction_log_path_def
        transaction_path_def snapshot_path_def)
  have "\<not> is_directory (balance_path U a)" "\<not> is_directory (transaction_log_path U a)"
    "\<not> is_directory (transaction_path U t)" "\<not> is_directory (snapshot_path U a time)"
    using count[unfolded slash_def] assms(2)
    by (simp_all add: is_directory_def balance_path_def transaction_log_path_def
        transaction_path_def snapshot_path_def starts_with_def slash_def)
  moreover have "\<not> ends_with (transaction_log_path U a) ''.json''"
    by (rule ends_with_last_differs) (simp_all add: transaction_log_path_def)
  moreover have "starts_with (transaction_path U t) ''/transactions/''"
    by (simp add: transaction_path_def starts_with_def)
  moreover have "\<not> is_valid_file (snapshot_path U a time)"
  proof -
    let ?n = "''snapshot_'' @ time @ ''.json''"
    have n: "slash \<notin> set ?n" using assms(2) by (simp add: slash_def)
    have p: "snapshot_path U a time = (''/accounts/'' @ ?u) @ slash # ?n"
      by (simp add: snapshot_path_def slash_def)
    have "slash # m = CHR ''/'' # m" for m by (simp add: slash_def)
    then show ?thesis
      using ends_with_segment[OF n, of "''balance.json''" "''/accounts/'' @ ?u"]
        ends_with_segment[OF n, of "''tx.log''" "''/accounts/'' @ ?u"]
        ends_with_segment[OF n, of "''snapshot.json''" "''/accounts/'' @ ?u"]
      unfolding p is_valid_file_def by (simp add: starts_with_def slash_def)
  qed
  ultimately show ?thesis using 1 files by (simp add: is_valid_file_def get_file_type_def)
qed

theorem path_classification_witness:
  "is_directory (account_path binary_uuid (AccountId 5))
   \<and> \<not> is_valid_file (snapshot_path binary_uuid (AccountId 5) ''2024'')"
  using path_classification[OF binary_uuid_text, of "''2024''" "AccountId 5"] by (simp add: slash_def)

end
