(* ===== verification/FuseFilesystem.thy ===== *)
theory FuseFilesystem
  imports CoreEvents PathResolver
begin

text \<open>
  \<^verbatim>\<open>filesystem.rs\<close>: the inode tables and the four FUSE operations, over the three repositories of
  \<^verbatim>\<open>traits.rs\<close> the filesystem holds. The filesystem only queries them, but what is behind them may
  change from one request to the next: each method takes the moment at which it is called, and a
  request calls one method at most. A reply is an error number or a value; a call may also panic. The
  uuid text, serde_json, the lossy reading of an \<^verbatim>\<open>OsStr\<close> and whether tokio can make a runtime at a
  moment are parameters.
\<close>

section \<open>Repositories\<close>

text \<open>The moment of a request.\<close>

type_synonym moment = nat

type_synonym 'a LedgerResult = "LedgerError + 'a"

record BalanceRepository =
  get_balance :: "moment \<Rightarrow> AccountId \<Rightarrow> Balance option LedgerResult"
  update_balance :: "moment \<Rightarrow> Balance \<Rightarrow> unit LedgerResult"
  get_balances :: "moment \<Rightarrow> AccountId list \<Rightarrow> Balance list LedgerResult"

record AccountRepository =
  get_account :: "moment \<Rightarrow> AccountId \<Rightarrow> Account option LedgerResult"
  save_account :: "moment \<Rightarrow> Account \<Rightarrow> unit LedgerResult"
  find_accounts :: "moment \<Rightarrow> (string, string) fmap \<Rightarrow> Account list LedgerResult"

record QueryService =
  get_balance_at_time :: "moment \<Rightarrow> AccountId \<Rightarrow> DateTime \<Rightarrow> Balance option LedgerResult"
  get_transaction_history ::
    "moment \<Rightarrow> AccountId \<Rightarrow> DateTime option \<Rightarrow> DateTime option \<Rightarrow> nat option \<Rightarrow> TransactionProcessedEvent list LedgerResult"
  search_transactions ::
    "moment \<Rightarrow> (string, string) fmap \<Rightarrow> nat option \<Rightarrow> TransactionProcessedEvent list LedgerResult"

text \<open>The values handed to serde_json; \<open>fl_to_string_pretty\<close> is \<open>None\<close> where it fails, and takes the
  moment too, since the tags of a transaction are printed in the order of their hash map, which may
  differ from one time to the next; \<open>fl_runtime\<close> is false where \<^verbatim>\<open>Runtime::new\<close> fails.\<close>

datatype JsonValue =
    JUuid uuid
  | JInt int
  | JNat nat
  | JString string
  | JTime DateTime
  | JTransactions "TransactionProcessedEvent list"
  | JObject "(string \<times> JsonValue) list"

record FuseLibs =
  fl_uuid :: UuidText
  fl_to_string_pretty :: "moment \<Rightarrow> JsonValue \<Rightarrow> string option"
  fl_to_string_lossy :: "bytes \<Rightarrow> string"
  fl_runtime :: "moment \<Rightarrow> bool"

section \<open>State\<close>

record LedgerFilesystem =
  balance_repo :: BalanceRepository
  account_repo :: AccountRepository
  query_service :: QueryService
  inode_map :: "u64 \<rightharpoonup> string"
  path_map :: "string \<rightharpoonup> u64"
  next_inode :: u64

definition filesystem_new ::
  "BalanceRepository \<Rightarrow> AccountRepository \<Rightarrow> QueryService \<Rightarrow> LedgerFilesystem" where
  "filesystem_new br ar qs =
     \<lparr>balance_repo = br, account_repo = ar, query_service = qs,
      inode_map = [1 \<mapsto> ''/'', 2 \<mapsto> ''/accounts'', 3 \<mapsto> ''/transactions'', 4 \<mapsto> ''/docs''],
      path_map = [''/'' \<mapsto> 1, ''/accounts'' \<mapsto> 2, ''/transactions'' \<mapsto> 3, ''/docs'' \<mapsto> 4],
      next_inode = 5\<rparr>"

text \<open>\<^verbatim>\<open>Clone\<close> copies the tables.\<close>

definition filesystem_clone :: "LedgerFilesystem \<Rightarrow> LedgerFilesystem" where
  "filesystem_clone fs =
     \<lparr>balance_repo = balance_repo fs, account_repo = account_repo fs,
      query_service = query_service fs, inode_map = inode_map fs, path_map = path_map fs,
      next_inode = next_inode fs\<rparr>"

text \<open>The part of \<^verbatim>\<open>get_or_create_inode\<close> under the write locks, which looks again; then the whole.\<close>

definition create_inode :: "LedgerFilesystem \<Rightarrow> string \<Rightarrow> u64 \<times> LedgerFilesystem" where
  "create_inode fs path =
     (case path_map fs path of
        Some inode \<Rightarrow> (inode, fs)
      | None \<Rightarrow>
          (let inode = next_inode fs in
           (inode, fs\<lparr>next_inode := inode + 1,
              inode_map := (inode_map fs)(inode \<mapsto> path),
              path_map := (path_map fs)(path \<mapsto> inode)\<rparr>)))"

definition get_or_create_inode :: "LedgerFilesystem \<Rightarrow> string \<Rightarrow> u64 \<times> LedgerFilesystem" where
  "get_or_create_inode fs path =
     (case path_map fs path of
        Some inode \<Rightarrow> (inode, fs)
      | None \<Rightarrow> create_inode fs path)"

definition get_path :: "LedgerFilesystem \<Rightarrow> u64 \<Rightarrow> string option" where
  "get_path fs inode = inode_map fs inode"

datatype Kind = Directory | RegularFile

record FileAttr =
  attr_ino :: u64
  attr_size :: u64
  attr_blocks :: u64
  attr_times :: "u64 \<times> u64 \<times> u64 \<times> u64"
  attr_kind :: Kind
  attr_perm :: nat
  attr_nlink :: nat
  attr_uid :: nat
  attr_gid :: nat
  attr_rdev :: nat
  attr_flags :: nat
  attr_blksize :: nat

text \<open>\<open>now\<close> is the clock in whole seconds; the permissions are octal 755 and 644.\<close>

definition create_file_attr :: "u64 \<Rightarrow> u64 \<Rightarrow> u64 \<Rightarrow> bool \<Rightarrow> FileAttr" where
  "create_file_attr now inode size' is_dir =
     \<lparr>attr_ino = inode, attr_size = size', attr_blocks = (size' + 511) div 512,
      attr_times = (now, now, now, now), attr_kind = (if is_dir then Directory else RegularFile),
      attr_perm = (if is_dir then 493 else 420), attr_nlink = 1, attr_uid = 1000, attr_gid = 1000,
      attr_rdev = 0, attr_flags = 0, attr_blksize = 4096\<rparr>"

section \<open>Contents\<close>

definition read_account_balance ::
  "FuseLibs \<Rightarrow> moment \<Rightarrow> LedgerFilesystem \<Rightarrow> string \<Rightarrow> (FuseError + string) run" where
  "read_account_balance L m fs account_id =
     (case parse_str (fl_uuid L) account_id of
        None \<Rightarrow> Return (Err (InvalidPath account_id))
      | Some u \<Rightarrow>
          (case get_balance (balance_repo fs) m (AccountId u) of
             Inl e \<Rightarrow> Return (Err (fuse_error_of_ledger e))
           | Inr None \<Rightarrow> Return (Err (FileNotFound (''balance for '' @ uuid_to_string (fl_uuid L) u)))
           | Inr (Some balance) \<Rightarrow>
               (case fl_to_string_pretty L m (JObject
                   [(''account_id'', JUuid (account_uuid (bal_account_id balance))),
                    (''amount'', JInt (cents (bal_amount balance))),
                    (''currency'', (case bal_currency balance of Currency c \<Rightarrow> JString c)),
                    (''as_of'', JTime (bal_as_of balance)),
                    (''version'', JNat (unat (bal_version balance)))]) of
                  None \<Rightarrow> Panic
                | Some text \<Rightarrow> Return (Ok text))))"

definition read_account_transactions ::
  "FuseLibs \<Rightarrow> moment \<Rightarrow> LedgerFilesystem \<Rightarrow> string \<Rightarrow> (FuseError + string) run" where
  "read_account_transactions L m fs account_id =
     (case parse_str (fl_uuid L) account_id of
        None \<Rightarrow> Return (Err (InvalidPath account_id))
      | Some u \<Rightarrow>
          (case get_transaction_history (query_service fs) m (AccountId u) None None (Some 100) of
             Inl e \<Rightarrow> Return (Err (fuse_error_of_ledger e))
           | Inr transactions \<Rightarrow>
               (case fl_to_string_pretty L m (JObject
                   [(''account_id'', JUuid u),
                    (''transaction_count'', JNat (length transactions)),
                    (''transactions'', JTransactions transactions)]) of
                  None \<Rightarrow> Panic
                | Some text \<Rightarrow> Return (Ok text))))"

definition list_accounts :: "FuseLibs \<Rightarrow> moment \<Rightarrow> LedgerFilesystem \<Rightarrow> FuseError + string list" where
  "list_accounts L m fs =
     try_bind (map_err fuse_error_of_ledger (find_accounts (account_repo fs) m fmempty))
       (\<lambda>accounts. Ok (map (\<lambda>acc. uuid_to_string (fl_uuid L) (account_uuid (acc_id acc))) accounts))"

section \<open>Operations\<close>

datatype 'a reply = ReplyError nat | Reply 'a

definition ENOENT :: nat where "ENOENT = 2"

text \<open>Both operations classify a path by its form alone.\<close>

definition lookup_is_dir :: "string \<Rightarrow> bool" where
  "lookup_is_dir full_path \<longleftrightarrow>
     full_path \<in> {''/accounts'', ''/transactions'', ''/docs''}
     \<or> starts_with full_path ''/accounts/'' \<and> count_list full_path slash = 2
     \<or> starts_with full_path ''/docs/'' \<and> count_list full_path slash = 2"

definition getattr_is_dir :: "string \<Rightarrow> bool" where
  "getattr_is_dir path \<longleftrightarrow>
     path \<in> {''/'', ''/accounts'', ''/transactions'', ''/docs''}
     \<or> starts_with path ''/accounts/'' \<and> count_list path slash = 2
     \<or> starts_with path ''/docs/'' \<and> count_list path slash = 2"

definition child_path :: "string \<Rightarrow> string \<Rightarrow> string" where
  "child_path parent_path name =
     (if parent_path = ''/'' then ''/'' @ name else parent_path @ ''/'' @ name)"

text \<open>The entry's lifetime is the constant \<^verbatim>\<open>TTL\<close>, in seconds.\<close>

definition TTL :: nat where "TTL = 1"

definition lookup_entry ::
  "FuseLibs \<Rightarrow> u64 \<Rightarrow> LedgerFilesystem \<Rightarrow> u64 \<Rightarrow> bytes \<Rightarrow> (nat \<times> FileAttr) reply \<times> LedgerFilesystem" where
  "lookup_entry L now fs parent name =
     (case get_path fs parent of
        None \<Rightarrow> (ReplyError ENOENT, fs)
      | Some parent_path \<Rightarrow>
          (let full_path = child_path parent_path (fl_to_string_lossy L name);
               (inode, fs) = get_or_create_inode fs full_path
           in (Reply (TTL, create_file_attr now inode 0 (lookup_is_dir full_path)), fs)))"

definition getattr :: "u64 \<Rightarrow> LedgerFilesystem \<Rightarrow> u64 \<Rightarrow> (nat \<times> FileAttr) reply" where
  "getattr now fs ino =
     (case get_path fs ino of
        None \<Rightarrow> ReplyError ENOENT
      | Some path \<Rightarrow>
          (let is_dir = getattr_is_dir path; size' = (if is_dir then 0 else 1024)
           in Reply (TTL, create_file_attr now ino size' is_dir)))"

text \<open>\<^verbatim>\<open>split('/').nth(2).unwrap()\<close>\<close>

definition third_segment :: "string \<Rightarrow> string run" where
  "third_segment path =
     (let parts = split_on slash path in if length parts \<le> 2 then Panic else Return (parts ! 2))"

definition read_content ::
  "FuseLibs \<Rightarrow> moment \<Rightarrow> LedgerFilesystem \<Rightarrow> string \<Rightarrow> (FuseError + string) run"
where
  "read_content L m fs path =
     (if ends_with path ''/balance.json''
      then run_bind (third_segment path) (read_account_balance L m fs)
      else if ends_with path ''/tx.log''
      then run_bind (third_segment path) (read_account_transactions L m fs)
      else Return (Err (FileNotFound path)))"

text \<open>The offset is cast to \<^verbatim>\<open>usize\<close>; the sum may overflow, and a slice panics when its bounds are
  out of order.\<close>

definition reply_slice :: "bool \<Rightarrow> i64 \<Rightarrow> 32 word \<Rightarrow> bytes \<Rightarrow> bytes reply run" where
  "reply_slice overflow_checks offset size' content =
     (let start = unat offset; sum' = start + unat size' in
      if overflow_checks \<and> sum' \<ge> 2 ^ 64 then Panic
      else let stop = min (sum' mod 2 ^ 64) (length content) in
        if start \<ge> length content then Return (Reply [])
        else if stop < start then Panic
        else Return (Reply (take (stop - start) (drop start content))))"

text \<open>\<^verbatim>\<open>Runtime::new().expect\<close> panics when there is no runtime; a request that panics changes nothing.\<close>

definition read_file ::
  "FuseLibs \<Rightarrow> bool \<Rightarrow> moment \<Rightarrow> LedgerFilesystem \<Rightarrow> u64 \<Rightarrow> i64 \<Rightarrow> 32 word \<Rightarrow> bytes reply run" where
  "read_file L overflow_checks m fs ino offset size' =
     (case get_path fs ino of
        None \<Rightarrow> Return (ReplyError ENOENT)
      | Some path \<Rightarrow>
          if \<not> fl_runtime L m then Panic
          else run_bind (read_content L m fs path)
            (\<lambda>content. case content of
               Inl _ \<Rightarrow> Return (ReplyError ENOENT)
             | Inr text \<Rightarrow> reply_slice overflow_checks offset size' (map of_char text)))"

type_synonym direntry = "string \<times> u64 \<times> Kind"

fun push_accounts ::
  "string list \<Rightarrow> LedgerFilesystem \<Rightarrow> direntry list \<Rightarrow> direntry list \<times> LedgerFilesystem" where
  "push_accounts [] fs entries = (entries, fs)"
| "push_accounts (account_id # account_ids) fs entries =
     (let (inode, fs) = get_or_create_inode fs (''/accounts/'' @ account_id)
      in push_accounts account_ids fs (entries @ [(account_id, inode, Directory)]))"

definition dir_entries ::
  "FuseLibs \<Rightarrow> moment \<Rightarrow> LedgerFilesystem \<Rightarrow> u64 \<Rightarrow> string
     \<Rightarrow> (direntry list option \<times> LedgerFilesystem) run"
where
  "dir_entries L m fs ino path =
     (if path = ''/'' then
        Return (Some [(''.'', 1, Directory), (''..'', 1, Directory), (''accounts'', 2, Directory),
           (''transactions'', 3, Directory), (''docs'', 4, Directory)], fs)
      else if path = ''/accounts'' then
        (let entries = [(''.'', 2, Directory), (''..'', 1, Directory)] in
         if \<not> fl_runtime L m then Panic
         else case list_accounts L m fs of
           Inl _ \<Rightarrow> Return (Some entries, fs)
         | Inr accounts \<Rightarrow>
             (let (entries, fs) = push_accounts accounts fs entries in Return (Some entries, fs)))
      else if starts_with path ''/accounts/'' \<and> count_list path slash = 2 then
        (let (balance_inode, fs) = get_or_create_inode fs (path @ ''/balance.json'');
             (tx_inode, fs) = get_or_create_inode fs (path @ ''/tx.log'')
         in Return (Some [(''.'', ino, Directory), (''..'', 2, Directory),
               (''balance.json'', balance_inode, RegularFile), (''tx.log'', tx_inode, RegularFile)], fs))
      else if path = ''/transactions'' then
        Return (Some [(''.'', 3, Directory), (''..'', 1, Directory)], fs)
      else if path = ''/docs'' then
        Return (Some [(''.'', 4, Directory), (''..'', 1, Directory)], fs)
      else Return (None, fs))"

text \<open>\<open>full\<close> is what \<^verbatim>\<open>ReplyDirectory::add\<close> answers: whether there is no room for an entry after
  those it holds. An entry carries the offset of the next one.\<close>

type_synonym dirent = "u64 \<times> i64 \<times> Kind \<times> string"

fun add_entries :: "(dirent list \<Rightarrow> dirent \<Rightarrow> bool) \<Rightarrow> (nat \<times> direntry) list \<Rightarrow> dirent list \<Rightarrow> dirent list" where
  "add_entries full [] out = out"
| "add_entries full ((i, name, inode, kind) # entries) out =
     (let d = (inode, word_of_nat (i + 1), kind, name) in
      if full out d then out else add_entries full entries (out @ [d]))"

definition readdir ::
  "FuseLibs \<Rightarrow> moment \<Rightarrow> (dirent list \<Rightarrow> dirent \<Rightarrow> bool) \<Rightarrow> LedgerFilesystem \<Rightarrow> u64 \<Rightarrow> i64
     \<Rightarrow> (dirent list reply \<times> LedgerFilesystem) run"
where
  "readdir L m full fs ino offset =
     (case get_path fs ino of
        None \<Rightarrow> Return (ReplyError ENOENT, fs)
      | Some path \<Rightarrow>
          run_bind (dir_entries L m fs ino path)
            (\<lambda>(listed, fs). case listed of
               None \<Rightarrow> Return (ReplyError ENOENT, fs)
             | Some entries \<Rightarrow>
                 Return (Reply (add_entries full (drop (unat offset) (enumerate 0 entries)) []), fs)))"

section \<open>The inode tables\<close>

text \<open>The two tables are inverse to each other, hold the four fixed entries, only absolute paths,
  and only inodes below the next one.\<close>

definition inodes_ok :: "LedgerFilesystem \<Rightarrow> bool" where
  "inodes_ok fs \<longleftrightarrow>
     (\<forall>i p. inode_map fs i = Some p \<longleftrightarrow> path_map fs p = Some i)
     \<and> (\<forall>i p. inode_map fs i = Some p \<longrightarrow> i < next_inode fs \<and> starts_with p ''/'')
     \<and> inode_map fs 1 = Some ''/'' \<and> inode_map fs 2 = Some ''/accounts''
     \<and> inode_map fs 3 = Some ''/transactions'' \<and> inode_map fs 4 = Some ''/docs''"

text \<open>What the operations do to the tables: they keep what is there, and the repositories.\<close>

definition grows :: "nat \<Rightarrow> LedgerFilesystem \<Rightarrow> LedgerFilesystem \<Rightarrow> bool" where
  "grows n fs fs' \<longleftrightarrow> inodes_ok fs' \<and> inode_map fs \<subseteq>\<^sub>m inode_map fs' \<and> path_map fs \<subseteq>\<^sub>m path_map fs'
     \<and> unat (next_inode fs') \<le> unat (next_inode fs) + n
     \<and> balance_repo fs' = balance_repo fs \<and> account_repo fs' = account_repo fs
     \<and> query_service fs' = query_service fs"

lemma grows_refl: "inodes_ok fs \<Longrightarrow> grows n fs fs"
  by (simp add: grows_def)

lemma grows_trans: "grows m fs fs' \<Longrightarrow> grows n fs' fs'' \<Longrightarrow> grows (m + n) fs fs''"
  by (auto simp: grows_def intro: map_le_trans)

lemma grows_mono: "grows m fs fs' \<Longrightarrow> m \<le> n \<Longrightarrow> grows n fs fs'"
  by (auto simp: grows_def)

lemma grows_lookup: "grows n fs fs' \<Longrightarrow> inode_map fs i = Some p \<Longrightarrow> inode_map fs' i = Some p"
  by (auto simp: grows_def map_le_def dom_def)

lemma grows_path: "grows n fs fs' \<Longrightarrow> path_map fs p = Some i \<Longrightarrow> path_map fs' p = Some i"
  by (auto simp: grows_def map_le_def dom_def)

lemma inodes_ok_inverse: "inodes_ok fs \<Longrightarrow> inode_map fs i = Some p \<longleftrightarrow> path_map fs p = Some i"
  by (simp add: inodes_ok_def)

lemma inodes_ok_new: "inodes_ok (filesystem_new br ar qs)"
  by (auto simp: inodes_ok_def filesystem_new_def starts_with_def)

lemma slow_path_same: "create_inode fs path = get_or_create_inode fs path"
  by (simp add: get_or_create_inode_def create_inode_def split: option.splits)

lemma get_or_create_known: "path_map fs path = Some i \<Longrightarrow> get_or_create_inode fs path = (i, fs)"
  by (simp add: get_or_create_inode_def)

lemma next_above: "inodes_ok fs \<Longrightarrow> path_map fs p = Some i \<Longrightarrow> i < next_inode fs"
  by (auto simp: inodes_ok_def)

lemma unat_next: "unat (w :: u64) + 1 < 2 ^ 64 \<Longrightarrow> unat (w + 1) = unat w + 1 \<and> w < w + 1"
  by (simp add: word_less_nat_alt unat_word_ariths)

lemma get_or_create_grows:
  assumes ok: "inodes_ok fs" and room: "unat (next_inode fs) + 1 < 2 ^ 64"
    and abs: "starts_with path ''/''" and g: "get_or_create_inode fs path = (i, fs')"
  shows "grows 1 fs fs' \<and> path_map fs' path = Some i \<and> inode_map fs' i = Some path"
proof (cases "path_map fs path")
  case (Some j)
  then show ?thesis
    using g ok by (auto simp: get_or_create_inode_def grows_refl inodes_ok_inverse)
next
  case None
  let ?n = "next_inode fs"
  have fs': "i = ?n" "fs' = fs\<lparr>next_inode := ?n + 1, inode_map := (inode_map fs)(?n \<mapsto> path),
      path_map := (path_map fs)(path \<mapsto> ?n)\<rparr>"
    using g None by (auto simp: get_or_create_inode_def create_inode_def Let_def)
  note n = unat_next[OF room]
  have fresh: "inode_map fs ?n = None"
    using ok by (cases "inode_map fs ?n") (auto simp: inodes_ok_def)
  have fixed: "?n \<noteq> 1" "?n \<noteq> 2" "?n \<noteq> 3" "?n \<noteq> 4"
    using ok fresh by (auto simp: inodes_ok_def)
  have inv: "(\<forall>j p. inode_map fs' j = Some p \<longleftrightarrow> path_map fs' p = Some j)"
    using ok None fresh by (auto simp: fs' inodes_ok_def)
  have bound: "j < ?n + 1 \<and> starts_with p ''/''" if "inode_map fs' j = Some p" for j p
  proof (cases "j = ?n")
    case True
    then show ?thesis using that n abs by (simp add: fs')
  next
    case False
    then have "j < ?n" "starts_with p ''/''" using that ok by (auto simp: fs' inodes_ok_def)
    then show ?thesis using n by (auto intro: less_trans)
  qed
  have "inodes_ok fs'"
    unfolding inodes_ok_def using inv bound ok fixed by (auto simp: fs' inodes_ok_def)
  then show ?thesis
    using None fresh n by (auto simp: grows_def fs' map_le_def)
qed

lemma child_path_abs: "starts_with p ''/'' \<Longrightarrow> starts_with (child_path p name) ''/''"
  by (cases p) (auto simp: child_path_def starts_with_def)

section \<open>The operations on the tables\<close>

lemma lookup_grows:
  assumes "inodes_ok fs" and "unat (next_inode fs) + 1 < 2 ^ 64"
    and "lookup_entry L now fs parent name = (r, fs')"
  shows "grows 1 fs fs'"
proof (cases "get_path fs parent")
  case None
  then show ?thesis using assms by (simp add: lookup_entry_def grows_refl)
next
  case (Some p)
  let ?p = "child_path p (fl_to_string_lossy L name)"
  obtain i fs1 where g: "get_or_create_inode fs ?p = (i, fs1)" by (cases "get_or_create_inode fs ?p")
  have "starts_with ?p ''/''"
    using assms(1) Some by (intro child_path_abs) (simp add: inodes_ok_def get_path_def)
  from get_or_create_grows[OF assms(1,2) this g] show ?thesis
    using assms(3) Some g by (simp add: lookup_entry_def Let_def)
qed

lemma push_accounts_grows:
  "inodes_ok fs \<Longrightarrow> unat (next_inode fs) + length as < 2 ^ 64 \<Longrightarrow> push_accounts as fs es = (es', fs') \<Longrightarrow>
     grows (length as) fs fs' \<and>
     es' = es @ map (\<lambda>a. (a, the (path_map fs' (''/accounts/'' @ a)), Directory)) as
     \<and> (\<forall>a\<in>set as. \<exists>i. path_map fs' (''/accounts/'' @ a) = Some i)"
proof (induction as arbitrary: fs es)
  case Nil
  then show ?case by (simp add: grows_refl)
next
  case (Cons a as)
  obtain i fs1 where g: "get_or_create_inode fs (''/accounts/'' @ a) = (i, fs1)"
    by (cases "get_or_create_inode fs (''/accounts/'' @ a)")
  have "unat (next_inode fs) + 1 < 2 ^ 64" using Cons.prems(2) by simp
  from get_or_create_grows[OF Cons.prems(1) this _ g]
  have 1: "grows 1 fs fs1" "path_map fs1 (''/accounts/'' @ a) = Some i" by (simp_all add: starts_with_def)
  then have ok: "inodes_ok fs1" "unat (next_inode fs1) + length as < 2 ^ 64"
    using Cons.prems(2) by (auto simp: grows_def)
  from Cons.prems(3) g have p: "push_accounts as fs1 (es @ [(a, i, Directory)]) = (es', fs')"
    by simp
  from Cons.IH[OF ok p] have 2: "grows (length as) fs1 fs'" by blast
  from grows_path[OF this 1(2)] Cons.IH[OF ok p] grows_trans[OF 1(1) 2] show ?case by simp
qed

text \<open>How many inodes the listing of a directory may create, at some moment.\<close>

definition listing_room :: "FuseLibs \<Rightarrow> moment \<Rightarrow> LedgerFilesystem \<Rightarrow> nat" where
  "listing_room L m fs = (case list_accounts L m fs of Inl _ \<Rightarrow> 2 | Inr accounts \<Rightarrow> 2 + length accounts)"

lemma listing_room_ge: "2 \<le> listing_room L m fs"
  by (simp add: listing_room_def split: sum.splits)

definition account_ids_plain :: "FuseLibs \<Rightarrow> moment \<Rightarrow> LedgerFilesystem \<Rightarrow> bool" where
  "account_ids_plain L m fs \<longleftrightarrow> (\<forall>as. list_accounts L m fs = Inr as \<longrightarrow> (\<forall>a\<in>set as. slash \<notin> set a))"

text \<open>What an entry of the listing of \<open>path\<close> stands for: the directory itself, its parent, or the
  path it names with that path's kind.\<close>

definition parent_path :: "string \<Rightarrow> string" where
  "parent_path path =
     (let p = rev (tl (dropWhile (\<lambda>c. c \<noteq> slash) (rev path))) in if p = [] then ''/'' else p)"

definition entry_resolves :: "LedgerFilesystem \<Rightarrow> string \<Rightarrow> direntry \<Rightarrow> bool" where
  "entry_resolves fs path d \<longleftrightarrow>
     (case d of (name, i, kind) \<Rightarrow>
        name = ''.'' \<and> kind = Directory \<and> get_path fs i = Some path
        \<or> name = ''..'' \<and> kind = Directory \<and> get_path fs i = Some (parent_path path)
        \<or> get_path fs i = Some (child_path path name)
          \<and> (kind = Directory \<longleftrightarrow> getattr_is_dir (child_path path name)))"

lemma dots_resolve:
  "get_path fs i = Some path \<Longrightarrow> entry_resolves fs path (''.'', i, Directory)"
  "get_path fs i = Some (parent_path path) \<Longrightarrow> entry_resolves fs path (''..'', i, Directory)"
  by (simp_all add: entry_resolves_def)

lemma fixed_paths:
  assumes "inodes_ok fs"
  shows "get_path fs 1 = Some ''/''" "get_path fs 2 = Some ''/accounts''"
    "get_path fs 3 = Some ''/transactions''" "get_path fs 4 = Some ''/docs''"
  using assms by (simp_all add: inodes_ok_def get_path_def)

lemma parent_path_literals [simp]:
  "parent_path ''/'' = ''/''" "parent_path ''/accounts'' = ''/''"
  "parent_path ''/transactions'' = ''/''" "parent_path ''/docs'' = ''/''"
  by (simp_all add: parent_path_def slash_def Let_def)

lemma parent_path_account:
  assumes "starts_with path ''/accounts/''" and "count_list path slash = 2"
  shows "parent_path path = ''/accounts''"
proof -
  obtain x where x: "path = ''/accounts/'' @ x"
    using assms(1) unfolding starts_with_prefix prefix_def by blast
  have "count_list x slash = 0" using assms(2) by (simp add: x slash_def)
  then have "slash \<notin> set x" by (simp add: count_list_0_iff)
  then have "dropWhile (\<lambda>c. c \<noteq> slash) (rev path) = rev ''/accounts/''"
    unfolding x rev_append by (subst dropWhile_append2) (auto simp: slash_def)
  then show ?thesis by (simp add: parent_path_def Let_def)
qed

lemma count_list_literals [simp]:
  "count_list (path @ ''/balance.json'') slash = count_list path slash + 1"
  "count_list (path @ ''/tx.log'') slash = count_list path slash + 1"
  by (simp_all add: slash_def)

lemma getattr_is_dir_count: "getattr_is_dir path \<Longrightarrow> count_list path slash \<le> 2"
  by (auto simp: getattr_is_dir_def slash_def)

lemma account_file_no_dir:
  "starts_with path ''/accounts/'' \<Longrightarrow> count_list path slash = 2 \<Longrightarrow>
     \<not> getattr_is_dir (path @ ''/balance.json'') \<and> \<not> getattr_is_dir (path @ ''/tx.log'')"
  by (auto dest!: getattr_is_dir_count simp: slash_def)

lemma account_dir:
  "slash \<notin> set a \<Longrightarrow> getattr_is_dir (''/accounts/'' @ a)"
  by (simp add: getattr_is_dir_def starts_with_def slash_def)

lemma account_files_grow:
  assumes ok: "inodes_ok fs" and room: "unat (next_inode fs) + 2 < 2 ^ 64" and abs: "starts_with path ''/''"
    and 1: "get_or_create_inode fs (path @ ''/balance.json'') = (i, fs1)"
    and 2: "get_or_create_inode fs1 (path @ ''/tx.log'') = (j, fs')"
  shows "grows 2 fs fs' \<and> inode_map fs' i = Some (path @ ''/balance.json'')
    \<and> inode_map fs' j = Some (path @ ''/tx.log'')"
proof -
  have abs: "starts_with (path @ s) ''/''" for s
    using abs by (cases path) (auto simp: starts_with_def)
  have g1: "grows 1 fs fs1" "inode_map fs1 i = Some (path @ ''/balance.json'')"
    using get_or_create_grows[OF ok _ abs 1] room by auto
  then have "inodes_ok fs1" "unat (next_inode fs1) + 1 < 2 ^ 64" using room by (auto simp: grows_def)
  from get_or_create_grows[OF this abs 2] have g2: "grows 1 fs1 fs'" "inode_map fs' j = Some (path @ ''/tx.log'')"
    by auto
  from grows_trans[OF g1(1) g2(1)] grows_lookup[OF g2(1) g1(2)] g2(2) show ?thesis
    by (simp add: numeral_2_eq_2)
qed

lemma dir_entries_grows:
  assumes ok: "inodes_ok fs" and room: "unat (next_inode fs) + listing_room L m fs < 2 ^ 64"
    and plain: "account_ids_plain L m fs" and path: "get_path fs ino = Some path"
    and d: "dir_entries L m fs ino path = Return (r, fs')"
  shows "grows (listing_room L m fs) fs fs' \<and> (\<forall>es. r = Some es \<longrightarrow> (\<forall>e\<in>set es. entry_resolves fs' path e))"
proof -
  consider "path = ''/''" | "path = ''/accounts''"
    | (account) "path \<noteq> ''/''" "path \<noteq> ''/accounts''" "starts_with path ''/accounts/'' \<and> count_list path slash = 2"
    | (rest) "path \<noteq> ''/''" "path \<noteq> ''/accounts''" "\<not> (starts_with path ''/accounts/'' \<and> count_list path slash = 2)"
    by blast
  then show ?thesis
  proof cases
    case 1
    have r: "r = Some [(''.'', 1, Directory), (''..'', 1, Directory), (''accounts'', 2, Directory),
        (''transactions'', 3, Directory), (''docs'', 4, Directory)]" and fs': "fs' = fs"
      using d 1 by (simp_all add: dir_entries_def)
    have "inode_map fs 2 = Some ''/accounts''" "inode_map fs 3 = Some ''/transactions''"
      "inode_map fs 4 = Some ''/docs''" using ok by (simp_all add: inodes_ok_def)
    then have "entry_resolves fs path (''accounts'', 2, Directory)"
      "entry_resolves fs path (''transactions'', 3, Directory)" "entry_resolves fs path (''docs'', 4, Directory)"
      using 1 by (simp_all add: entry_resolves_def child_path_def get_path_def getattr_is_dir_def)
    then show ?thesis using grows_refl[OF ok] fixed_paths(1)[OF ok] 1 by (simp add: r fs' dots_resolve)
  next
    case 2
    show ?thesis
    proof (cases "list_accounts L m fs")
      case (Inl e)
      with 2 d have "fs' = fs" "r = Some [(''.'', 2, Directory), (''..'', 1, Directory)]"
        by (simp_all add: dir_entries_def Let_def split: if_splits)
      then show ?thesis using 2 fixed_paths[OF ok] grows_refl[OF ok] by (auto simp: dots_resolve)
    next
      case (Inr as)
      let ?dots = "[(''.'', 2, Directory), (''..'', 1, Directory)]"
      obtain es where p: "push_accounts as fs ?dots = (es, fs')" and r: "r = Some es"
        using 2 d Inr by (auto simp: dir_entries_def Let_def split: prod.splits if_splits)
      have rm: "unat (next_inode fs) + length as < 2 ^ 64" "length as \<le> listing_room L m fs"
        using room Inr by (simp_all add: listing_room_def)
      note g = push_accounts_grows[OF ok rm(1) p]
      then have ok': "inodes_ok fs'" by (auto simp: grows_def)
      have "entry_resolves fs' path (a, the (path_map fs' (''/accounts/'' @ a)), Directory)" if a: "a \<in> set as" for a
      proof -
        from g a obtain i where i: "path_map fs' (''/accounts/'' @ a) = Some i" by blast
        moreover have "slash \<notin> set a" using plain Inr a by (auto simp: account_ids_plain_def)
        ultimately show ?thesis
          using inodes_ok_inverse[OF ok', of i "''/accounts/'' @ a"] account_dir[of a] 2
          by (simp add: entry_resolves_def child_path_def get_path_def)
      qed
      then show ?thesis using g r rm(2) fixed_paths[OF ok'] 2 by (auto simp: dots_resolve intro: grows_mono)
    qed
  next
    case account
    obtain i fs1 where 1: "get_or_create_inode fs (path @ ''/balance.json'') = (i, fs1)"
      by (cases "get_or_create_inode fs (path @ ''/balance.json'')")
    obtain j fs2 where 2: "get_or_create_inode fs1 (path @ ''/tx.log'') = (j, fs2)"
      by (cases "get_or_create_inode fs1 (path @ ''/tx.log'')")
    have "starts_with path ''/''" using ok path by (simp add: inodes_ok_def get_path_def)
    moreover have "unat (next_inode fs) + 2 < 2 ^ 64" using room listing_room_ge[of L m fs] by simp
    ultimately have g: "grows 2 fs fs2 \<and> inode_map fs2 i = Some (path @ ''/balance.json'')
        \<and> inode_map fs2 j = Some (path @ ''/tx.log'')"
      using account_files_grow[OF ok _ _ 1 2] by blast
    have "r = Some [(''.'', ino, Directory), (''..'', 2, Directory),
        (''balance.json'', i, RegularFile), (''tx.log'', j, RegularFile)]" "fs' = fs2"
      using d account by (simp_all add: dir_entries_def 1 2 Let_def)
    moreover have "get_path fs2 ino = Some path" "get_path fs2 2 = Some (parent_path path)"
      using g path account(3) fixed_paths(2)[of fs2] parent_path_account[of path]
      by (auto simp: get_path_def grows_def dest: grows_lookup[OF conjunct1[OF g]])
    ultimately show ?thesis
      using g account account_file_no_dir[of path] grows_mono[OF conjunct1[OF g] listing_room_ge]
      by (simp add: dots_resolve) (simp add: entry_resolves_def child_path_def get_path_def)
  next
    case rest
    have "dir_entries L m fs ino path =
        (if path = ''/transactions'' then Return (Some [(''.'', 3, Directory), (''..'', 1, Directory)], fs)
         else if path = ''/docs'' then Return (Some [(''.'', 4, Directory), (''..'', 1, Directory)], fs)
         else Return (None, fs))"
      using rest by (simp only: dir_entries_def if_False simp_thms)
    with d have "fs' = fs" "r = None \<or> path = ''/transactions'' \<and> r = Some [(''.'', 3, Directory), (''..'', 1, Directory)]
        \<or> path = ''/docs'' \<and> r = Some [(''.'', 4, Directory), (''..'', 1, Directory)]"
      by (auto split: if_splits)
    then show ?thesis using grows_refl[OF ok] fixed_paths[OF ok] by (auto simp: dots_resolve)
  qed
qed

text \<open>The directories that can be listed, and the one whose listing needs a runtime.\<close>

lemma dir_entries_Panic_iff:
  "dir_entries L m fs ino path = Panic \<longleftrightarrow> path = ''/accounts'' \<and> \<not> fl_runtime L m"
  by (simp add: dir_entries_def Let_def split_beta split: sum.split)

lemma dir_entries_None_iff:
  "(\<exists>fs'. dir_entries L m fs ino path = Return (None, fs')) \<longleftrightarrow>
     \<not> (path \<in> {''/'', ''/accounts'', ''/transactions'', ''/docs''}
        \<or> starts_with path ''/accounts/'' \<and> count_list path slash = 2)"
  by (simp add: dir_entries_def Let_def split_beta split: sum.split)

end
