(* ===== verification/FuseCorrect.thy ===== *)
theory FuseCorrect
  imports FuseFilesystem
begin

text \<open>
  Correctness of the FUSE operations: the inode tables along any sequence of requests, the
  listing of directories page by page, and what lookups, attributes and reads return.
\<close>

section \<open>Sequences of requests\<close>

datatype FuseOp =
    LookupOp u64 u64 bytes
  | GetattrOp u64 u64
  | ReadOp moment u64 i64 "32 word"
  | ReaddirOp moment "dirent list \<Rightarrow> dirent \<Rightarrow> bool" u64 i64

text \<open>The tables after a request; one that panics leaves them as they are.\<close>

fun fuse_op :: "FuseLibs \<Rightarrow> FuseOp \<Rightarrow> LedgerFilesystem \<Rightarrow> LedgerFilesystem" where
  "fuse_op L (LookupOp now parent name) fs = snd (lookup_entry L now fs parent name)"
| "fuse_op L (GetattrOp now ino) fs = fs"
| "fuse_op L (ReadOp m ino offset size') fs = fs"
| "fuse_op L (ReaddirOp m full ino offset) fs =
     (case readdir L m full fs ino offset of Return (r, fs') \<Rightarrow> fs' | Panic \<Rightarrow> fs)"

definition fuse_run :: "FuseLibs \<Rightarrow> FuseOp list \<Rightarrow> LedgerFilesystem \<Rightarrow> LedgerFilesystem" where
  "fuse_run L ops fs = fold (fuse_op L) ops fs"

text \<open>How many inodes a request may create.\<close>

fun op_room :: "FuseLibs \<Rightarrow> LedgerFilesystem \<Rightarrow> FuseOp \<Rightarrow> nat" where
  "op_room L fs (LookupOp now parent name) = 1"
| "op_room L fs (ReaddirOp m full ino offset) = listing_room L m fs"
| "op_room L fs _ = 0"

definition run_room :: "FuseLibs \<Rightarrow> LedgerFilesystem \<Rightarrow> FuseOp list \<Rightarrow> nat" where
  "run_room L fs ops = sum_list (map (op_room L fs) ops)"

lemma run_room_simps [simp]:
  "run_room L fs [] = 0" "run_room L fs (op # ops) = op_room L fs op + run_room L fs ops"
  "run_room L fs (ops @ ops') = run_room L fs ops + run_room L fs ops'"
  by (simp_all add: run_room_def)

lemma list_accounts_grows: "grows n fs fs' \<Longrightarrow> list_accounts L m fs' = list_accounts L m fs"
  by (simp add: grows_def list_accounts_def)

lemma room_grows:
  assumes "grows n fs fs'"
  shows "listing_room L m fs' = listing_room L m fs"
    and "account_ids_plain L m fs' = account_ids_plain L m fs"
    and "run_room L fs' ops = run_room L fs ops"
proof -
  show room: "listing_room L m fs' = listing_room L m fs" for m
    by (simp add: listing_room_def list_accounts_grows[OF assms])
  show "account_ids_plain L m fs' = account_ids_plain L m fs"
    by (simp add: account_ids_plain_def list_accounts_grows[OF assms])
  have "op_room L fs' op = op_room L fs op" for op by (cases op) (simp_all add: room)
  then have "op_room L fs' = op_room L fs" by blast
  then show "run_room L fs' ops = run_room L fs ops" by (simp add: run_room_def)
qed

lemma readdir_cases:
  assumes "readdir L m full fs ino offset = Return (r, fs')"
  obtains (unknown) "get_path fs ino = None" "r = ReplyError ENOENT" "fs' = fs"
    | (refused) path where "get_path fs ino = Some path" "r = ReplyError ENOENT"
        "dir_entries L m fs ino path = Return (None, fs')"
    | (listed) path es where "get_path fs ino = Some path"
        "r = Reply (add_entries full (drop (unat offset) (enumerate 0 es)) [])"
        "dir_entries L m fs ino path = Return (Some es, fs')"
proof (cases "get_path fs ino")
  case None
  with assms show thesis by (intro unknown) (simp_all add: readdir_def)
next
  case (Some path)
  with assms obtain es where d: "dir_entries L m fs ino path = Return (es, fs')"
    and r: "r = (case es of None \<Rightarrow> ReplyError ENOENT
      | Some es \<Rightarrow> Reply (add_entries full (drop (unat offset) (enumerate 0 es)) []))"
    by (cases "dir_entries L m fs ino path") (auto simp: readdir_def split: option.splits)
  show thesis
  proof (cases es)
    case None
    with d r show thesis by (intro refused[OF Some]) simp_all
  next
    case Some': (Some es')
    with d r show thesis by (intro listed[OF Some]) simp_all
  qed
qed

lemma readdir_grows:
  assumes ok: "inodes_ok fs" and room: "unat (next_inode fs) + listing_room L m fs < 2 ^ 64"
    and plain: "account_ids_plain L m fs" and r: "readdir L m full fs ino offset = Return (r, fs')"
  shows "grows (listing_room L m fs) fs fs'"
  using r
proof (cases rule: readdir_cases)
  case unknown
  with ok show ?thesis by (simp add: grows_refl)
next
  case (refused path)
  with dir_entries_grows[OF ok room plain refused(1,3)] show ?thesis by simp
next
  case (listed path es)
  with dir_entries_grows[OF ok room plain listed(1,3)] show ?thesis by simp
qed

lemma fuse_op_grows:
  assumes "inodes_ok fs" and "unat (next_inode fs) + op_room L fs op < 2 ^ 64"
    and "\<And>m. account_ids_plain L m fs"
  shows "grows (op_room L fs op) fs (fuse_op L op fs)"
proof (cases op)
  case (LookupOp now parent name)
  with lookup_grows[OF assms(1), of L now parent name] assms(2) show ?thesis
    by (cases "lookup_entry L now fs parent name") simp
next
  case (ReaddirOp m full ino offset)
  with readdir_grows[OF assms(1) _ assms(3), of m full ino offset] assms(2) grows_refl[OF assms(1)]
  show ?thesis by (cases "readdir L m full fs ino offset") auto
qed (use assms(1) in \<open>simp_all add: grows_refl\<close>)

lemma fuse_run_grows:
  "inodes_ok fs \<Longrightarrow> unat (next_inode fs) + run_room L fs ops < 2 ^ 64 \<Longrightarrow>
     (\<And>m. account_ids_plain L m fs) \<Longrightarrow> grows (run_room L fs ops) fs (fuse_run L ops fs)"
proof (induction ops arbitrary: fs)
  case Nil
  then show ?case by (simp add: fuse_run_def grows_refl)
next
  case (Cons op ops)
  let ?fs = "fuse_op L op fs" and ?k = "op_room L fs op"
  have g: "grows ?k fs ?fs" using Cons.prems by (intro fuse_op_grows) auto
  have "grows (run_room L fs ops) ?fs (fuse_run L ops ?fs)"
    using Cons.IH[of ?fs] Cons.prems g room_grows(2,3)[OF g, of L] by (auto simp: grows_def)
  from grows_trans[OF g this] show ?case by (simp add: fuse_run_def)
qed

section \<open>Listing page by page\<close>

definition dirent_of :: "nat \<times> direntry \<Rightarrow> dirent" where
  "dirent_of = (\<lambda>(i, name, inode, kind). (inode, word_of_nat (i + 1), kind, name))"

definition dirents :: "direntry list \<Rightarrow> dirent list" where
  "dirents es = map dirent_of (enumerate 0 es)"

lemma length_dirents [simp]: "length (dirents es) = length es"
  by (simp add: dirents_def)

lemma nth_dirents: "i < length es \<Longrightarrow> fst (snd (dirents es ! i)) = word_of_nat (i + 1)"
  by (cases "es ! i") (simp add: dirents_def dirent_of_def nth_enumerate_eq)

lemma add_entries_prefix:
  "\<exists>n. add_entries full xs out = out @ take n (map dirent_of xs) \<and> n \<le> length xs
     \<and> ((\<forall>d. \<not> full out d) \<longrightarrow> xs \<noteq> [] \<longrightarrow> 0 < n)"
proof (induction full xs out rule: add_entries.induct)
  case (1 full out)
  then show ?case by simp
next
  case (2 full i name inode kind entries out)
  let ?d = "(inode, word_of_nat (i + 1), kind, name)"
  show ?case
  proof (cases "full out ?d")
    case True
    then show ?thesis by (intro exI[of _ 0]) auto
  next
    case False
    with 2 obtain n where "add_entries full entries (out @ [?d]) = (out @ [?d]) @ take n (map dirent_of entries)"
      "n \<le> length entries" by auto
    with False show ?thesis by (intro exI[of _ "Suc n"]) (simp add: dirent_of_def)
  qed
qed

lemma push_known:
  "\<forall>a\<in>set as. path_map fs (''/accounts/'' @ a) \<noteq> None \<Longrightarrow>
     push_accounts as fs es = (es @ map (\<lambda>a. (a, the (path_map fs (''/accounts/'' @ a)), Directory)) as, fs)"
proof (induction as arbitrary: es)
  case (Cons a as)
  then obtain i where i: "path_map fs (''/accounts/'' @ a) = Some i" by auto
  from get_or_create_known[OF i] i Cons show ?case by simp
qed simp

text \<open>A listing depends on the moment only through the accounts and the runtime.\<close>

lemma dir_entries_moment:
  assumes "path = ''/accounts'' \<longrightarrow>
    list_accounts L m' fs = list_accounts L m fs \<and> fl_runtime L m' = fl_runtime L m"
  shows "dir_entries L m' fs ino path = dir_entries L m fs ino path"
  using assms by (cases "path = ''/accounts''") (simp_all add: dir_entries_def Let_def)

text \<open>A second listing of a directory finds every inode in place.\<close>

lemma dir_entries_again:
  assumes ok: "inodes_ok fs" and room: "unat (next_inode fs) + listing_room L m fs < 2 ^ 64"
    and path: "get_path fs ino = Some path" and d: "dir_entries L m fs ino path = Return (r, fs')"
    and plain: "account_ids_plain L m fs"
  shows "dir_entries L m fs' ino path = Return (r, fs')"
proof -
  note g = conjunct1[OF dir_entries_grows[OF ok room plain path d]]
  show ?thesis
  proof (cases "path = ''/accounts''")
    case True
    have run: "fl_runtime L m" using d dir_entries_Panic_iff[of L m fs ino path] True by auto
    show ?thesis
    proof (cases "list_accounts L m fs")
      case (Inl e)
      with True d run list_accounts_grows[OF g, of L m] show ?thesis
        by (auto simp: dir_entries_def Let_def)
    next
      case (Inr as)
      let ?dots = "[(''.'', 2, Directory), (''..'', 1, Directory)]"
      obtain es where p: "push_accounts as fs ?dots = (es, fs')" and r: "r = Some es"
        using True d Inr run by (auto simp: dir_entries_def Let_def split: prod.splits)
      have "unat (next_inode fs) + length as < 2 ^ 64" using room Inr by (simp add: listing_room_def)
      from push_accounts_grows[OF ok this p] push_known[of as fs' ?dots]
      have "push_accounts as fs' ?dots = (es, fs')" by auto
      with True r Inr run list_accounts_grows[OF g, of L m] show ?thesis
        by (simp add: dir_entries_def Let_def)
    qed
  next
    case False
    show ?thesis
    proof (cases "starts_with path ''/accounts/'' \<and> count_list path slash = 2")
      case account: True
      then have root: "path \<noteq> ''/''" by (auto simp: starts_with_def)
      obtain i fs1 where 1: "get_or_create_inode fs (path @ ''/balance.json'') = (i, fs1)"
        by (cases "get_or_create_inode fs (path @ ''/balance.json'')")
      obtain j fs2 where 2: "get_or_create_inode fs1 (path @ ''/tx.log'') = (j, fs2)"
        by (cases "get_or_create_inode fs1 (path @ ''/tx.log'')")
      have "starts_with path ''/''" using ok path by (simp add: inodes_ok_def get_path_def)
      moreover have "unat (next_inode fs) + 2 < 2 ^ 64" using room listing_room_ge[of L m fs] by simp
      ultimately have f: "grows 2 fs fs2 \<and> inode_map fs2 i = Some (path @ ''/balance.json'')
          \<and> inode_map fs2 j = Some (path @ ''/tx.log'')"
        using account_files_grow[OF ok _ _ 1 2] by blast
      then have "path_map fs2 (path @ ''/balance.json'') = Some i" "path_map fs2 (path @ ''/tx.log'') = Some j"
        by (auto simp: grows_def inodes_ok_inverse)
      from get_or_create_known[OF this(1)] get_or_create_known[OF this(2)] d account root False
      show ?thesis by (simp add: dir_entries_def 1 2 Let_def)
    next
      case other: False
      have E: "dir_entries L m fs0 ino path =
          (if path = ''/'' then Return (Some [(''.'', 1, Directory), (''..'', 1, Directory),
              (''accounts'', 2, Directory), (''transactions'', 3, Directory), (''docs'', 4, Directory)], fs0)
           else if path = ''/transactions'' then Return (Some [(''.'', 3, Directory), (''..'', 1, Directory)], fs0)
           else if path = ''/docs'' then Return (Some [(''.'', 4, Directory), (''..'', 1, Directory)], fs0)
           else Return (None, fs0))" for fs0
        by (simp only: dir_entries_def False other if_False)
      have "fs' = fs" using d unfolding E by (auto split: if_splits)
      with d show ?thesis by simp
    qed
  qed
qed

text \<open>A client that asks for the next page, one moment later, at the offset of the last entry it got,
  until a page is empty. It has nothing more after an error or a panic.\<close>

fun dir_client ::
  "FuseLibs \<Rightarrow> (dirent list \<Rightarrow> dirent \<Rightarrow> bool) \<Rightarrow> nat \<Rightarrow> moment \<Rightarrow> LedgerFilesystem \<Rightarrow> u64 \<Rightarrow> i64
     \<Rightarrow> dirent list"
where
  "dir_client L full 0 m fs ino offset = []"
| "dir_client L full (Suc fuel) m fs ino offset =
     (case readdir L m full fs ino offset of
        Return (Reply ds, fs') \<Rightarrow>
          (if ds = [] then []
           else ds @ dir_client L full fuel (m + 1) fs' ino (fst (snd (last ds))))
      | _ \<Rightarrow> [])"

lemma take_drop_page: "take n (drop k xs) @ drop (k + n) xs = drop k xs"
  using append_take_drop_id[of n "drop k xs"] by (simp add: add.commute)

lemma unat_small: "k < 2 ^ 64 \<Longrightarrow> unat (word_of_nat k :: 64 word) = k"
  by (simp add: unat_of_nat take_bit_nat_eq_self)

lemma dir_client_from:
  assumes again: "\<And>j. dir_entries L (m + j) fs ino path = Return (Some es, fs)" and path: "get_path fs ino = Some path"
    and small: "length es < 2 ^ 63" and roomy: "\<And>d. \<not> full [] d"
  shows "k \<le> length es \<Longrightarrow> length es - k < fuel \<Longrightarrow>
    dir_client L full fuel (m + j) fs ino (word_of_nat k) = drop k (dirents es)"
proof (induction fuel arbitrary: k j)
  case (Suc fuel)
  let ?rest = "drop k (enumerate 0 es)"
  have u: "unat (word_of_nat k :: i64) = k" using Suc.prems(1) small by (intro unat_small) simp
  obtain n where n: "add_entries full ?rest [] = take n (map dirent_of ?rest)" "n \<le> length es - k"
    "?rest \<noteq> [] \<Longrightarrow> 0 < n"
    using add_entries_prefix[of full ?rest "[]"] roomy by auto
  have rd: "readdir L (m + j) full fs ino (word_of_nat k) = Return (Reply (take n (drop k (dirents es))), fs)"
    using path again n(1) by (simp add: readdir_def u dirents_def drop_map)
  show ?case
  proof (cases "k = length es")
    case True
    then show ?thesis using rd by simp
  next
    case False
    then have pos: "0 < n" using n(3) Suc.prems(1) by simp
    let ?page = "take n (drop k (dirents es))"
    have len: "length ?page = n" using n(2) by simp
    with pos have ne: "?page \<noteq> []" by auto
    have "last ?page = dirents es ! (k + n - 1)"
      using pos n(2) Suc.prems(1) ne len by (simp add: last_conv_nth)
    then have "fst (snd (last ?page)) = word_of_nat (k + n - 1 + 1)"
      using nth_dirents[of "k + n - 1" es] pos n(2) Suc.prems(1) by simp
    then have off: "fst (snd (last ?page)) = word_of_nat (k + n)" using pos by simp
    have "dir_client L full fuel (m + (j + 1)) fs ino (word_of_nat (k + n)) = drop (k + n) (dirents es)"
      using Suc.prems n(2) pos by (intro Suc.IH) auto
    then have "dir_client L full (Suc fuel) (m + j) fs ino (word_of_nat k) = ?page @ drop (k + n) (dirents es)"
      using ne by (simp add: rd off)
    also have "\<dots> = drop k (dirents es)"
      by (simp add: take_drop_page)
    finally show ?thesis .
  qed
qed simp

section \<open>Reading\<close>

lemma third_segment_panics:
  assumes "starts_with path ''/''"
    and "ends_with path ''/balance.json'' \<or> ends_with path ''/tx.log''"
  shows "third_segment path = Panic \<longleftrightarrow> path = ''/balance.json'' \<or> path = ''/tx.log''"
proof -
  obtain p where p: "path = p @ ''/balance.json'' \<or> path = p @ ''/tx.log''"
    using assms(2) by (auto simp: ends_with_suffix suffix_def)
  have "third_segment path = Panic \<longleftrightarrow> count_list path slash \<le> 1"
    by (simp add: third_segment_def Let_def length_split_on)
  also have "\<dots> \<longleftrightarrow> slash \<notin> set p"
    using p by (auto simp: count_list_0_iff simp: slash_def)
  also have "\<dots> \<longleftrightarrow> p = []"
  proof
    assume free: "slash \<notin> set p"
    show "p = []"
    proof (cases p)
      case (Cons c cs)
      then have "c = slash" using p assms(1) by (auto simp: starts_with_def slash_def)
      with Cons free show ?thesis by simp
    qed
  qed simp
  also have "\<dots> \<longleftrightarrow> path = ''/balance.json'' \<or> path = ''/tx.log''"
  proof
    assume "path = ''/balance.json'' \<or> path = ''/tx.log''"
    moreover have "p @ ''/balance.json'' = ''/balance.json'' \<longrightarrow> p = []" "p @ ''/tx.log'' = ''/tx.log'' \<longrightarrow> p = []"
      by (simp_all del: append.simps)
    moreover have "last (p @ ''/balance.json'') \<noteq> last ''/tx.log''" "last (p @ ''/tx.log'') \<noteq> last ''/balance.json''"
      by simp_all
    ultimately show "p = []" using p by metis
  qed (use p in auto)
  finally show ?thesis .
qed

text \<open>The values of the two kinds of files, and the value a read of a path prints, if it gets so far.\<close>

definition balance_value :: "Balance \<Rightarrow> JsonValue" where
  "balance_value b = JObject
     [(''account_id'', JUuid (account_uuid (bal_account_id b))), (''amount'', JInt (cents (bal_amount b))),
      (''currency'', (case bal_currency b of Currency c \<Rightarrow> JString c)),
      (''as_of'', JTime (bal_as_of b)), (''version'', JNat (unat (bal_version b)))]"

definition history_value :: "uuid \<Rightarrow> TransactionProcessedEvent list \<Rightarrow> JsonValue" where
  "history_value u ts = JObject
     [(''account_id'', JUuid u), (''transaction_count'', JNat (length ts)),
      (''transactions'', JTransactions ts)]"

definition content_value :: "FuseLibs \<Rightarrow> moment \<Rightarrow> LedgerFilesystem \<Rightarrow> string \<Rightarrow> JsonValue option" where
  "content_value L m fs path =
     (case third_segment path of
        Panic \<Rightarrow> None
      | Return a \<Rightarrow>
          (case parse_str (fl_uuid L) a of
             None \<Rightarrow> None
           | Some u \<Rightarrow>
               if ends_with path ''/balance.json''
               then (case get_balance (balance_repo fs) m (AccountId u) of
                       Inr (Some b) \<Rightarrow> Some (balance_value b)
                     | _ \<Rightarrow> None)
               else if ends_with path ''/tx.log''
               then (case get_transaction_history (query_service fs) m (AccountId u) None None (Some 100) of
                       Inr ts \<Rightarrow> Some (history_value u ts)
                     | Inl _ \<Rightarrow> None)
               else None))"

lemmas read_content_defs = read_content_def content_value_def read_account_balance_def
  read_account_transactions_def balance_value_def history_value_def

lemma read_content_value:
  "content_value L m fs path = Some v \<Longrightarrow>
     read_content L m fs path = (case fl_to_string_pretty L m v of None \<Rightarrow> Panic | Some text \<Rightarrow> Return (Inr text))"
  by (cases "third_segment path") (auto simp: read_content_defs split: option.splits sum.splits if_splits)

lemma read_content_no_value:
  assumes "starts_with path ''/''" and "content_value L m fs path = None"
  shows "if path \<in> {''/balance.json'', ''/tx.log''} then read_content L m fs path = Panic
    else (\<exists>e. read_content L m fs path = Return (Inl e))"
proof -
  have ends: "ends_with ''/tx.log'' ''/tx.log''" "ends_with ''/balance.json'' ''/balance.json''"
    by (simp_all add: ends_with_def)
  have "if (ends_with path ''/balance.json'' \<or> ends_with path ''/tx.log'') \<and> third_segment path = Panic
    then read_content L m fs path = Panic else (\<exists>e. read_content L m fs path = Return (Inl e))"
    using assms(2) by (cases "third_segment path")
      (auto simp: read_content_defs split: option.splits sum.splits if_splits)
  then show ?thesis using third_segment_panics[OF assms(1)] ends by (auto split: if_splits)
qed

lemma content_value_at_root:
  assumes "path = ''/balance.json'' \<or> path = ''/tx.log''"
  shows "content_value L m fs path = None"
proof -
  have "third_segment path = Panic"
    using third_segment_panics[of path] assms by (auto simp: ends_with_def starts_with_def)
  then show ?thesis by (simp add: content_value_def)
qed

lemma reply_slice_Panic_iff:
  "reply_slice checks offset size' content = Panic \<longleftrightarrow>
     2 ^ 64 \<le> unat offset + unat size' \<and> (checks \<or> unat offset < length content)"
proof -
  have s: "unat size' < 2 ^ 32" "unat offset < 2 ^ 64"
    using unsigned_less[of size', where ?'a = nat] unsigned_less[of offset, where ?'a = nat] by simp_all
  show ?thesis
  proof (cases "2 ^ 64 \<le> unat offset + unat size'")
    case True
    then have "(unat offset + unat size') mod 2 ^ 64 = unat offset + unat size' - 2 ^ 64"
      using s by (simp add: le_mod_geq)
    with True s show ?thesis by (auto simp: reply_slice_def Let_def min_def)
  next
    case False
    then show ?thesis by (auto simp: reply_slice_def Let_def min_def)
  qed
qed

lemma read_file_Panic_iff:
  assumes "starts_with path ''/''" and "get_path fs ino = Some path"
  shows "read_file L checks m fs ino offset size' = Panic \<longleftrightarrow>
    \<not> fl_runtime L m
    \<or> path \<in> {''/balance.json'', ''/tx.log''}
    \<or> (\<exists>v. content_value L m fs path = Some v
        \<and> (case fl_to_string_pretty L m v of None \<Rightarrow> True
          | Some text \<Rightarrow> 2 ^ 64 \<le> unat offset + unat size' \<and> (checks \<or> unat offset < length text)))"
proof (cases "content_value L m fs path")
  case None
  from read_content_no_value[OF assms(1) None] None assms(2) show ?thesis
    by (auto simp: read_file_def split: if_splits)
next
  case (Some v)
  then have "path \<notin> {''/balance.json'', ''/tx.log''}" using content_value_at_root by auto
  with read_content_value[OF Some] Some assms(2) show ?thesis
    by (auto simp: read_file_def reply_slice_Panic_iff split: option.splits)
qed

lemma reply_slice_eq:
  assumes "length content < 2 ^ 63" and "\<not> checks \<or> unat offset + unat size' < 2 ^ 64"
  shows "reply_slice checks offset size' content =
    Return (Reply (take (unat size') (drop (unat offset) content)))"
proof -
  have s: "unat size' < 2 ^ 32" using unsigned_less[of size', where ?'a = nat] by simp
  show ?thesis
  proof (cases "unat offset \<ge> length content")
    case True
    with assms(2) show ?thesis by (auto simp: reply_slice_def Let_def)
  next
    case False
    then have "unat offset + unat size' < 2 ^ 64" using assms(1) s by simp
    then show ?thesis using False by (auto simp: reply_slice_def Let_def min_def)
  qed
qed

lemma balance_third:
  assumes "uuid_text U"
  shows "third_segment (balance_path U a) = Return (uuid_to_string U (account_uuid a))"
proof -
  have free: "slash \<notin> set (uuid_to_string U (account_uuid a))"
    using uuid_text.uuid_no_slash[OF assms, of "account_uuid a"] by (simp add: slash_def)
  have "split_on slash (balance_path U a) =
      [''''] @ [''accounts''] @ [uuid_to_string U (account_uuid a)] @ [''balance.json'']"
    unfolding balance_path_def split_account
    using split_on_sep[OF free, of "''balance.json''"] by (simp add: slash_def)
  then show ?thesis by (simp add: third_segment_def Let_def)
qed

text \<open>The content of a balance file; and where a lookup leads.\<close>

lemma read_content_account_balance:
  assumes "uuid_text (fl_uuid L)" and "get_balance (balance_repo fs) m a = Inr (Some b)"
  shows "read_content L m fs (balance_path (fl_uuid L) a) =
    (case fl_to_string_pretty L m (balance_value b) of None \<Rightarrow> Panic | Some text \<Rightarrow> Return (Inr text))"
proof -
  have "ends_with (balance_path (fl_uuid L) a) ''/balance.json''"
    by (simp add: ends_with_suffix suffix_def balance_path_def)
  then have "read_content L m fs (balance_path (fl_uuid L) a) =
      read_account_balance L m fs (uuid_to_string (fl_uuid L) (account_uuid a))"
    by (simp add: read_content_def balance_third[OF assms(1)])
  then show ?thesis
    using uuid_text.parse_to_string[OF assms(1), of "account_uuid a"] assms(2)
    by (simp add: read_account_balance_def balance_value_def)
qed

lemma read_content_balance:
  assumes "uuid_text (fl_uuid L)" and "get_balance (balance_repo fs) m a = Inr (Some b)"
    and "fl_to_string_pretty L m (balance_value b) = Some text"
  shows "read_content L m fs (balance_path (fl_uuid L) a) = Return (Inr text)"
  using read_content_account_balance[OF assms(1,2)] assms(3) by simp

lemma lookup_reaches:
  assumes "inodes_ok fs" and "unat (next_inode fs) + 1 < 2 ^ 64" and "get_path fs parent = Some p"
  shows "\<exists>i fs'. lookup_entry L now fs parent name =
      (Reply (TTL, create_file_attr now i 0 (lookup_is_dir (child_path p (fl_to_string_lossy L name)))), fs')
    \<and> get_path fs' i = Some (child_path p (fl_to_string_lossy L name)) \<and> grows 1 fs fs'"
proof -
  let ?p = "child_path p (fl_to_string_lossy L name)"
  obtain i fs' where g: "get_or_create_inode fs ?p = (i, fs')" by (cases "get_or_create_inode fs ?p")
  have "starts_with ?p ''/''"
    using assms(1,3) by (intro child_path_abs) (simp add: inodes_ok_def get_path_def)
  from get_or_create_grows[OF assms(1,2) this g] show ?thesis
    using assms(3) g by (auto simp: lookup_entry_def get_path_def Let_def)
qed

section \<open>A small filesystem\<close>

text \<open>Two accounts, and repositories that know one balance and no transaction.\<close>

definition demo_account :: "uuid \<Rightarrow> Account" where
  "demo_account u =
     \<lparr>acc_id = AccountId u, acc_status = Active,
      acc_metadata = \<lparr>am_account_type = Customer, am_currency = currency_usd, am_tags = fmempty,
        am_regulatory_flags = []\<rparr>,
      acc_created_at = 0, acc_updated_at = 0\<rparr>"

definition demo_fs :: LedgerFilesystem where
  "demo_fs = filesystem_new
     \<lparr>get_balance = (\<lambda>_ a. Ok (if a = AccountId 1
         then Some \<lparr>bal_account_id = a, bal_amount = Amount 5, bal_currency = currency_usd, bal_as_of = 0,
                bal_version = 1\<rparr> else None)),
      update_balance = (\<lambda>_ _. Ok ()), get_balances = (\<lambda>_ _. Ok [])\<rparr>
     \<lparr>get_account = (\<lambda>_ _. Ok None), save_account = (\<lambda>_ _. Ok ()),
      find_accounts = (\<lambda>_ _. Ok [demo_account 1, demo_account 2])\<rparr>
     \<lparr>get_balance_at_time = (\<lambda>_ _ _. Ok None), get_transaction_history = (\<lambda>_ _ _ _ _. Ok []),
      search_transactions = (\<lambda>_ _ _. Ok [])\<rparr>"

definition demo_fuse :: FuseLibs where
  "demo_fuse =
     \<lparr>fl_uuid = binary_uuid, fl_to_string_pretty = (\<lambda>_ _. Some ''{json}''),
      fl_to_string_lossy = map (\<lambda>b. char_of (unat b)), fl_runtime = (\<lambda>_. True)\<rparr>"

lemma demo_fs_ok: "inodes_ok demo_fs"
  by (simp add: demo_fs_def inodes_ok_new)

lemma demo_room: "listing_room demo_fuse m demo_fs = 4"
  by (simp add: listing_room_def list_accounts_def demo_fs_def filesystem_new_def)

lemma demo_next: "next_inode demo_fs = 5"
  by (simp add: demo_fs_def filesystem_new_def)

lemma demo_root: "get_path demo_fs 1 = Some ''/''" "get_path demo_fs 2 = Some ''/accounts''"
  by (simp_all add: demo_fs_def filesystem_new_def get_path_def)

lemma uuid_ids_plain: "uuid_text (fl_uuid L) \<Longrightarrow> account_ids_plain L m fs"
  by (auto simp: account_ids_plain_def list_accounts_def result_iffs slash_def
      dest: uuid_text.uuid_no_slash)

lemma demo_lossy: "fl_to_string_lossy demo_fuse (map of_char s) = s"
proof -
  have "unat (of_char c :: u8) = of_char c" for c
  proof -
    have "unat (word_of_nat (of_char c) :: u8) = of_char c"
      by (simp add: unat_of_nat take_bit_nat_eq_self)
    then show ?thesis by (simp only: of_nat_of_char)
  qed
  then show ?thesis by (simp add: demo_fuse_def comp_def)
qed

lemma demo_uuid: "uuid_text (fl_uuid demo_fuse)"
  by (simp add: demo_fuse_def binary_uuid_text)

section \<open>Properties\<close>

text \<open>C18: Along any sequence of requests to a new filesystem (with fewer inodes asked for than there
  are) the two inode tables stay inverse to each other, all inodes lie below the next one, and an
  inode once given out keeps its path for ever.\<close>

theorem inode_tables_consistent:
  assumes "uuid_text (fl_uuid L)" and "fs = filesystem_new br ar qs"
    and "5 + run_room L fs (ops @ ops') < 2 ^ 64"
  shows "(\<forall>i p. inode_map (fuse_run L ops fs) i = Some p \<longleftrightarrow> path_map (fuse_run L ops fs) p = Some i)
    \<and> (\<forall>i p. inode_map (fuse_run L ops fs) i = Some p \<longrightarrow> i < next_inode (fuse_run L ops fs))
    \<and> inode_map (fuse_run L ops fs) \<subseteq>\<^sub>m inode_map (fuse_run L (ops @ ops') fs)"
proof -
  let ?mid = "fuse_run L ops fs"
  have ok: "inodes_ok fs" and start: "unat (next_inode fs) = 5"
    using assms(2) inodes_ok_new by (simp_all add: filesystem_new_def)
  note plain = uuid_ids_plain[OF assms(1)]
  have g: "grows (run_room L fs ops) fs ?mid"
    using fuse_run_grows[OF ok _ plain, of ops] start assms(3) by simp
  have "grows (run_room L fs ops') ?mid (fuse_run L ops' ?mid)"
    using fuse_run_grows[OF _ _ plain, of ?mid ops'] g room_grows(3)[OF g, of L] start assms(3)
    by (simp add: grows_def)
  then show ?thesis using g by (auto simp: grows_def inodes_ok_def fuse_run_def)
qed

theorem inode_tables_consistent_witness:
  "inode_map demo_fs \<subseteq>\<^sub>m inode_map (fuse_run demo_fuse [LookupOp 0 1 [120], ReaddirOp 0 (\<lambda>_ _. False) 2 0] demo_fs)"
  using inode_tables_consistent[OF demo_uuid demo_fs_def, of "[]"
      "[LookupOp 0 1 [120], ReaddirOp 0 (\<lambda>_ _. False) 2 0]"] demo_room
  by (simp add: fuse_run_def)

text \<open>C27: On consistent tables, a lookup under any known inode, be it a directory or a file, finds every name
  but the empty one, whether it exists or not, while there are inodes left: the entry's inode stands for the joined path,
  later attributes agree with it on the kind, which is that of the path resolver, and disagree on the
  size of a file, 0 by the lookup and 1024 by \<open>getattr\<close>.\<close>

theorem lookup_finds_every_name:
  assumes "inodes_ok fs" and "unat (next_inode fs) + 1 < 2 ^ 64"
    and "get_path fs parent = Some p" and "fl_to_string_lossy L name \<noteq> []"
  shows "\<exists>attr attr' fs'. lookup_entry L now fs parent name = (Reply (TTL, attr), fs')
    \<and> get_path fs' (attr_ino attr) = Some (child_path p (fl_to_string_lossy L name))
    \<and> getattr now' fs' (attr_ino attr) = Reply (TTL, attr')
    \<and> attr_kind attr' = attr_kind attr
    \<and> (attr_kind attr = Directory \<longleftrightarrow> is_directory (child_path p (fl_to_string_lossy L name)))
    \<and> attr_size attr = 0 \<and> (attr_kind attr = RegularFile \<longrightarrow> attr_size attr' = 1024)"
proof -
  let ?p = "child_path p (fl_to_string_lossy L name)"
  obtain i fs' where l: "lookup_entry L now fs parent name =
      (Reply (TTL, create_file_attr now i 0 (lookup_is_dir ?p)), fs')" "get_path fs' i = Some ?p"
    using lookup_reaches[OF assms(1-3)] by blast
  have "?p \<noteq> ''/''" using assms(4) by (cases p) (auto simp: child_path_def)
  then have "getattr_is_dir ?p = lookup_is_dir ?p" "is_directory ?p = lookup_is_dir ?p"
    by (auto simp: getattr_is_dir_def lookup_is_dir_def is_directory_def)
  with l show ?thesis by (simp add: getattr_def create_file_attr_def Let_def)
qed

theorem lookup_finds_every_name_witness:
  "\<exists>attr fs'. lookup_entry demo_fuse 0 demo_fs 1 (map of_char ''no'') = (Reply (1, attr), fs')
     \<and> get_path fs' (attr_ino attr) = Some ''/no''"
  using lookup_finds_every_name[OF demo_fs_ok, of 1 "''/''" demo_fuse "map of_char ''no''" 0 0,
      unfolded demo_lossy]
  by (simp add: demo_next demo_root TTL_def child_path_def del: list.map) blast

text \<open>C32: When a read panics, and that any client can make it. On consistent tables, a read of a known inode panics exactly
  when no runtime can be made at that moment, or its path is \<^verbatim>\<open>/balance.json\<close> or \<^verbatim>\<open>/tx.log\<close> at the root,
  or there is a value to print that serde_json cannot print, or the cast offset and the size add up to
  \<open>2 ^ 64\<close> or more and either overflows are checked or the text is longer still than the offset. A read
  of an unknown inode does not panic. And the two paths are within reach: while there are inodes left,
  a lookup of either name at the root finds it as a file, and every read of the inode it replies
  panics, at any moment, offset and size.\<close>

theorem read_panics_exactly:
  assumes "inodes_ok fs"
  shows "(read_file L checks m fs ino offset size' = Panic \<longleftrightarrow>
      (\<exists>path. get_path fs ino = Some path
        \<and> (\<not> fl_runtime L m
          \<or> path \<in> {''/balance.json'', ''/tx.log''}
          \<or> (\<exists>v. content_value L m fs path = Some v
              \<and> (case fl_to_string_pretty L m v of None \<Rightarrow> True
                | Some text \<Rightarrow> 2 ^ 64 \<le> unat offset + unat size'
                    \<and> (checks \<or> unat offset < length text))))))
    \<and> (unat (next_inode fs) + 1 < 2 ^ 64 \<and> fl_to_string_lossy L name \<in> {''balance.json'', ''tx.log''} \<longrightarrow>
        (\<exists>attr fs'. lookup_entry L now fs 1 name = (Reply (TTL, attr), fs') \<and> attr_kind attr = RegularFile
          \<and> (\<forall>checks m offset size'. read_file L checks m fs' (attr_ino attr) offset size' = Panic)))"
proof (intro conjI impI)
  have abs: "starts_with path ''/''" if "get_path fs ino = Some path" for path
    using assms that by (simp add: inodes_ok_def get_path_def)
  show "read_file L checks m fs ino offset size' = Panic \<longleftrightarrow>
      (\<exists>path. get_path fs ino = Some path
        \<and> (\<not> fl_runtime L m
          \<or> path \<in> {''/balance.json'', ''/tx.log''}
          \<or> (\<exists>v. content_value L m fs path = Some v
              \<and> (case fl_to_string_pretty L m v of None \<Rightarrow> True
                | Some text \<Rightarrow> 2 ^ 64 \<le> unat offset + unat size'
                    \<and> (checks \<or> unat offset < length text)))))"
  proof (cases "get_path fs ino")
    case None
    then show ?thesis by (simp add: read_file_def)
  next
    case (Some path)
    from read_file_Panic_iff[OF abs[OF Some] Some] Some show ?thesis by simp
  qed
next
  assume a: "unat (next_inode fs) + 1 < 2 ^ 64 \<and> fl_to_string_lossy L name \<in> {''balance.json'', ''tx.log''}"
  let ?p = "child_path ''/'' (fl_to_string_lossy L name)"
  have root: "get_path fs 1 = Some ''/''" by (rule fixed_paths(1)[OF assms])
  obtain i fs' where l: "lookup_entry L now fs 1 name =
      (Reply (TTL, create_file_attr now i 0 (lookup_is_dir ?p)), fs')" "get_path fs' i = Some ?p"
    using lookup_reaches[OF assms conjunct1[OF a] root] by blast
  have p: "?p \<in> {''/balance.json'', ''/tx.log''}" "starts_with ?p ''/''" "\<not> lookup_is_dir ?p"
    using a by (auto simp: child_path_def starts_with_def lookup_is_dir_def)
  have "read_file L checks m fs' i offset size' = Panic" for checks m offset size'
    using read_file_Panic_iff[OF p(2) l(2)] p(1) by blast
  with l(1) p(3) show "\<exists>attr fs'. lookup_entry L now fs 1 name = (Reply (TTL, attr), fs') \<and> attr_kind attr = RegularFile
      \<and> (\<forall>checks m offset size'. read_file L checks m fs' (attr_ino attr) offset size' = Panic)"
    by (auto simp: create_file_attr_def)
qed

theorem read_panics_exactly_witness:
  "\<exists>(attr :: FileAttr) fs'. lookup_entry demo_fuse 0 demo_fs 1 (map of_char ''balance.json'') = (Reply (TTL, attr), fs')
     \<and> read_file demo_fuse False 7 fs' (attr_ino attr) 0 4096 = Panic
     \<and> read_file demo_fuse True 7 demo_fs 2 0 4096 \<noteq> Panic"
proof -
  have "unat (next_inode demo_fs) + 1 < 2 ^ 64
      \<and> fl_to_string_lossy demo_fuse (map of_char ''balance.json'') \<in> {''balance.json'', ''tx.log''}"
    unfolding demo_lossy by (simp add: demo_next)
  with read_panics_exactly[OF demo_fs_ok, of demo_fuse True 7 2 0 4096 "map of_char ''balance.json''" 0]
  show ?thesis by (simp add: demo_root demo_fuse_def del: list.map) blast
qed

text \<open>Reading the balance file of an account the repository knows, when a runtime can be made, returns, for any offset and size,
  that slice of the rendered balance.\<close>

theorem read_balance_slices:
  assumes "uuid_text (fl_uuid L)" and "get_path fs ino = Some (balance_path (fl_uuid L) a)"
    and "get_balance (balance_repo fs) m a = Ok (Some b)"
    and "fl_to_string_pretty L m (balance_value b) = Some text"
    and "fl_runtime L m" and "length text < 2 ^ 63" and "\<not> checks \<or> unat offset + unat size' < 2 ^ 64"
  shows "read_file L checks m fs ino offset size' =
    Return (Reply (take (unat size') (drop (unat offset) (map of_char text))))"
  using read_content_balance[OF assms(1,3,4)] assms(2,5-7) by (simp add: read_file_def reply_slice_eq)

theorem read_balance_slices_witness:
  "read_file demo_fuse True 0 (snd (get_or_create_inode demo_fs (balance_path binary_uuid (AccountId 1))))
     (fst (get_or_create_inode demo_fs (balance_path binary_uuid (AccountId 1)))) 1 4
   = Return (Reply (map of_char ''json''))"
proof -
  obtain i fs' where g: "get_or_create_inode demo_fs (balance_path binary_uuid (AccountId 1)) = (i, fs')"
    by (cases "get_or_create_inode demo_fs (balance_path binary_uuid (AccountId 1))")
  have abs: "starts_with (balance_path binary_uuid (AccountId 1)) ''/''"
    by (simp add: balance_path_def starts_with_def)
  have fs': "get_path fs' i = Some (balance_path (fl_uuid demo_fuse) (AccountId 1))"
    "balance_repo fs' = balance_repo demo_fs"
    using get_or_create_grows[OF demo_fs_ok _ abs g] by (simp_all add: demo_next grows_def get_path_def demo_fuse_def)
  have "get_balance (balance_repo fs') 0 (AccountId 1) = Inr (Some \<lparr>bal_account_id = AccountId 1,
      bal_amount = Amount 5, bal_currency = currency_usd, bal_as_of = 0, bal_version = 1\<rparr>)"
    by (simp add: fs' demo_fs_def filesystem_new_def)
  from read_balance_slices[OF demo_uuid fs'(1) this, of "''{json}''" True 1 4]
  show ?thesis by (simp add: g demo_fuse_def)
qed

text \<open>C19: A client that lists a directory page by page, continuing at the offset of the last entry it
  got, receives every entry exactly once and in order, whatever the size of the kernel's buffer, as
  long as it has room for one entry; and the listing is the same at every page. (For the directory of
  accounts, as long as the repository names the same accounts at the moments of the pages, and a
  runtime can be made at each.)\<close>

theorem paged_listing_complete:
  assumes "inodes_ok fs" and "unat (next_inode fs) + listing_room L m fs < 2 ^ 64"
    and "uuid_text (fl_uuid L)" and "get_path fs ino = Some path"
    and "dir_entries L m fs ino path = Return (Some es, fs')" and "length es < 2 ^ 63"
    and "\<forall>d. \<not> full [] d"
    and "path = ''/accounts'' \<longrightarrow>
      (\<forall>j. list_accounts L (m + j) fs = list_accounts L m fs \<and> fl_runtime L (m + j))"
  shows "dir_client L full (length es + 1) m fs' ino 0 = dirents es
    \<and> (\<forall>j. dir_entries L (m + j) fs' ino path = Return (Some es, fs'))"
proof -
  note plain = uuid_ids_plain[OF assms(3)]
  note g = conjunct1[OF dir_entries_grows[OF assms(1,2) plain assms(4,5)]]
  have again: "dir_entries L (m + j) fs' ino path = Return (Some es, fs')" for j
  proof -
    have "path = ''/accounts'' \<longrightarrow> list_accounts L (m + j) fs' = list_accounts L m fs'
        \<and> fl_runtime L (m + j) = fl_runtime L m"
      using assms(8) list_accounts_grows[OF g, of L] by (metis add_0_right)
    from dir_entries_moment[OF this] dir_entries_again[OF assms(1,2,4,5) plain] show ?thesis by simp
  qed
  have "get_path fs' ino = Some path"
    using g assms(4) by (auto simp: get_path_def dest: grows_lookup)
  from dir_client_from[OF again this assms(6), of full 0 "length es + 1" 0] assms(7) again
  show ?thesis by simp
qed

theorem paged_listing_complete_witness:
  "\<exists>es fs'. dir_entries demo_fuse 0 demo_fs 2 ''/accounts'' = Return (Some es, fs')
     \<and> dir_client demo_fuse (\<lambda>out d. length out \<ge> 1) (length es + 1) 0 fs' 2 0 = dirents es"
proof -
  have same: "list_accounts demo_fuse (0 + j) demo_fs = list_accounts demo_fuse 0 demo_fs
      \<and> fl_runtime demo_fuse (0 + j)" for j
    by (simp add: list_accounts_def demo_fs_def filesystem_new_def demo_fuse_def)
  obtain as where as: "list_accounts demo_fuse 0 demo_fs = Inr as" "length as = 2"
    by (simp add: list_accounts_def demo_fs_def filesystem_new_def)
  obtain es fs' where p: "push_accounts as demo_fs [(''.'', 2, Directory), (''..'', 1, Directory)] = (es, fs')"
    by (cases "push_accounts as demo_fs [(''.'', 2, Directory), (''..'', 1, Directory)]")
  have d: "dir_entries demo_fuse 0 demo_fs 2 ''/accounts'' = Return (Some es, fs')"
    using p as(1) by (simp add: dir_entries_def Let_def) (simp add: demo_fuse_def)
  have len: "length es < 2 ^ 63"
    using push_accounts_grows[OF demo_fs_ok _ p] as(2) by (auto simp: demo_next)
  from paged_listing_complete[OF demo_fs_ok _ demo_uuid demo_root(2) d len,
      of "\<lambda>out d. length out \<ge> 1"] d same
  show ?thesis by (simp add: demo_next demo_room)
qed

text \<open>C20: What a listing names is there: the dots lead to the directory and to its parent, every
  other entry leads to the path it names and has the kind \<open>getattr\<close> gives that path. The directories that can be listed are those \<open>getattr\<close>
  calls directories, less the ones below \<^verbatim>\<open>/docs\<close>: for these a listing reports \<open>ENOENT\<close>. And a listing
  panics just when it is that of \<^verbatim>\<open>/accounts\<close> and no runtime can be made.\<close>

theorem listing_matches_attributes:
  assumes "inodes_ok fs" and "unat (next_inode fs) + listing_room L m fs < 2 ^ 64"
    and "uuid_text (fl_uuid L)" and "get_path fs ino = Some path"
  shows "(\<forall>es fs'. dir_entries L m fs ino path = Return (Some es, fs') \<longrightarrow> (\<forall>e\<in>set es. entry_resolves fs' path e))
    \<and> ((\<exists>fs'. readdir L m full fs ino offset = Return (ReplyError ENOENT, fs'))
        \<longleftrightarrow> \<not> getattr_is_dir path \<or> starts_with path ''/docs/'' \<and> count_list path slash = 2)
    \<and> (readdir L m full fs ino offset = Panic \<longleftrightarrow> path = ''/accounts'' \<and> \<not> fl_runtime L m)"
proof (intro conjI)
  show "\<forall>es fs'. dir_entries L m fs ino path = Return (Some es, fs') \<longrightarrow> (\<forall>e\<in>set es. entry_resolves fs' path e)"
    using dir_entries_grows[OF assms(1,2) uuid_ids_plain[OF assms(3)] assms(4)] by blast
  have "(\<exists>fs'. readdir L m full fs ino offset = Return (ReplyError ENOENT, fs')) \<longleftrightarrow>
      (\<exists>fs'. dir_entries L m fs ino path = Return (None, fs'))"
    using assms(4) by (cases "dir_entries L m fs ino path")
      (auto simp: readdir_def split: prod.splits option.splits)
  also have "\<dots> \<longleftrightarrow> \<not> (path \<in> {''/'', ''/accounts'', ''/transactions'', ''/docs''}
      \<or> starts_with path ''/accounts/'' \<and> count_list path slash = 2)"
    by (rule dir_entries_None_iff)
  also have "\<dots> \<longleftrightarrow> \<not> getattr_is_dir path \<or> starts_with path ''/docs/'' \<and> count_list path slash = 2"
  proof -
    have "\<not> (starts_with path ''/docs/'' \<and> path \<in> {''/'', ''/accounts'', ''/transactions'', ''/docs''})"
      by (auto simp: starts_with_def)
    moreover have "\<not> (starts_with path ''/docs/'' \<and> starts_with path ''/accounts/'')"
      by (auto simp: starts_with_prefix prefix_def)
    ultimately show ?thesis unfolding getattr_is_dir_def by blast
  qed
  finally show "(\<exists>fs'. readdir L m full fs ino offset = Return (ReplyError ENOENT, fs')) \<longleftrightarrow>
      \<not> getattr_is_dir path \<or> starts_with path ''/docs/'' \<and> count_list path slash = 2" .
  show "readdir L m full fs ino offset = Panic \<longleftrightarrow> path = ''/accounts'' \<and> \<not> fl_runtime L m"
    unfolding dir_entries_Panic_iff[of L m fs ino path, symmetric]
    using assms(4) by (cases "dir_entries L m fs ino path") (auto simp: readdir_def split: option.splits)
qed

theorem listing_matches_attributes_witness:
  "(\<exists>fs'. readdir demo_fuse 0 (\<lambda>_ _. False) (snd (get_or_create_inode demo_fs ''/docs/x''))
      (fst (get_or_create_inode demo_fs ''/docs/x'')) 0 = Return (ReplyError ENOENT, fs'))
   \<and> getattr_is_dir ''/docs/x''"
proof -
  obtain i fs' where g: "get_or_create_inode demo_fs ''/docs/x'' = (i, fs')"
    by (cases "get_or_create_inode demo_fs ''/docs/x''")
  have 1: "grows 1 demo_fs fs'" "get_path fs' i = Some ''/docs/x''"
    using get_or_create_grows[OF demo_fs_ok _ _ g] by (simp_all add: demo_next starts_with_def get_path_def)
  then have "inodes_ok fs'" "unat (next_inode fs') + listing_room demo_fuse 0 fs' < 2 ^ 64"
    using room_grows(1)[OF 1(1), of demo_fuse] by (simp_all add: grows_def demo_room demo_next)
  from listing_matches_attributes[OF this demo_uuid 1(2), of "\<lambda>_ _. False" 0]
  show ?thesis by (simp add: g getattr_is_dir_def starts_with_def slash_def)
qed

end
