(* ===== verification/FuseClient.thy ===== *)
theory FuseClient
  imports FuseCorrect
begin

text \<open>
  The filesystem of \<^verbatim>\<open>filesystem.rs\<close> as its clients see it: a reader that asks for one block
  after the other, a reader that trusts the size of the attributes, and what is common to every
  reply.
\<close>

section \<open>Reading block by block\<close>

text \<open>A client that reads on from where the last reply ended, one moment later, until a reply is empty.
  It makes at most \<open>fuel\<close> requests; an error or a panic ends it as well.\<close>

datatype reading = ReadAll bytes | ReadBroken | ReadUnfinished

fun prepend_block :: "bytes \<Rightarrow> reading \<Rightarrow> reading" where
  "prepend_block d (ReadAll ds) = ReadAll (d @ ds)"
| "prepend_block d r = r"

fun read_client ::
  "FuseLibs \<Rightarrow> bool \<Rightarrow> moment \<Rightarrow> LedgerFilesystem \<Rightarrow> u64 \<Rightarrow> 32 word \<Rightarrow> nat \<Rightarrow> i64 \<Rightarrow> reading"
where
  "read_client L checks m fs ino size' 0 offset = ReadUnfinished"
| "read_client L checks m fs ino size' (Suc fuel) offset =
     (case read_file L checks m fs ino offset size' of
        Return (Reply d) \<Rightarrow>
          (if d = [] then ReadAll []
           else prepend_block d
             (read_client L checks (m + 1) fs ino size' fuel (offset + word_of_nat (length d))))
      | _ \<Rightarrow> ReadBroken)"

lemma read_client_step:
  "read_file L checks m fs ino offset size' = Return (Reply d) \<Longrightarrow> d \<noteq> [] \<Longrightarrow>
     offset + word_of_nat (length d) = offset' \<Longrightarrow>
     read_client L checks m fs ino size' (Suc fuel) offset =
       prepend_block d (read_client L checks (Suc m) fs ino size' fuel offset')"
  by auto

lemma read_file_text:
  assumes "get_path fs ino = Some path" and "fl_runtime L m"
    and "read_content L m fs path = Return (Inr text)"
    and "length text < 2 ^ 63" and "\<not> checks \<or> unat offset + unat size' < 2 ^ 64"
  shows "read_file L checks m fs ino offset size' =
    Return (Reply (take (unat size') (drop (unat offset) (map of_char text))))"
  using assms by (simp add: read_file_def reply_slice_eq)

text \<open>What the client gets: the byte at \<open>p\<close> is in block \<open>p div s\<close>, which is read at the moment of that
  number, out of what the file holds then.\<close>

definition woven :: "(nat \<Rightarrow> string) \<Rightarrow> nat \<Rightarrow> nat \<Rightarrow> nat \<Rightarrow> bytes" where
  "woven text s a b = map (\<lambda>p. of_char (text (p div s) ! p)) [a..<b]"

lemma woven_append: "a \<le> b \<Longrightarrow> b \<le> c \<Longrightarrow> woven text s a b @ woven text s b c = woven text s a c"
  using upt_add_eq_append[of a b "c - b"] by (simp add: woven_def)

lemma woven_block:
  assumes "k * s < length (text k)"
  shows "take s (drop (k * s) (map of_char (text k))) = woven text s (k * s) (min (k * s + s) (length (text k)))"
  unfolding woven_def
proof (rule nth_equalityI)
  show "length (take s (drop (k * s) (map of_char (text k) :: bytes))) =
    length (map (\<lambda>p. of_char (text (p div s) ! p) :: u8) [k * s..<min (k * s + s) (length (text k))])"
    using assms by (auto simp: min_def)
  fix i assume "i < length (take s (drop (k * s) (map of_char (text k) :: bytes)))"
  then have i: "i < s" "k * s + i < length (text k)" by auto
  then have "(k * s + i) div s = k" by simp
  with i show "take s (drop (k * s) (map of_char (text k) :: bytes)) ! i =
      map (\<lambda>p. of_char (text (p div s) ! p)) [k * s..<min (k * s + s) (length (text k))] ! i" by simp
qed

lemma woven_constant: "length t = n \<Longrightarrow> woven (\<lambda>_. t) s 0 n = map of_char t"
  by (auto simp: woven_def intro: nth_equalityI)

text \<open>The number of blocks, the last one perhaps short.\<close>

lemma block_iff:
  assumes "0 < (s :: nat)"
  shows "k < (n + s - 1) div s \<longleftrightarrow> k * s < n"
proof -
  have "k < (n + s - 1) div s \<longleftrightarrow> Suc k * s \<le> n + s - 1"
    using assms by (simp only: Suc_le_eq[symmetric] less_eq_div_iff_mult_less_eq)
  also have "\<dots> \<longleftrightarrow> k * s < n" using assms by auto
  finally show ?thesis .
qed

lemma read_client_from:
  assumes path: "get_path fs ino = Some path"
    and run: "\<And>i. fl_runtime L (m + i)"
    and shown: "\<And>i. read_content L (m + i) fs path = Return (Inr (text i))"
    and len: "\<And>i. length (text i) = n" and small: "n < 2 ^ 63" and pos: "0 < size'"
  shows "k \<le> (n + unat size' - 1) div unat size' \<Longrightarrow>
    read_client L checks (m + k) fs ino size' fuel (word_of_nat (min (k * unat size') n)) =
      (if (n + unat size' - 1) div unat size' - k < fuel
       then ReadAll (woven text (unat size') (min (k * unat size') n) n) else ReadUnfinished)"
proof (induction fuel arbitrary: k)
  case (Suc fuel)
  let ?s = "unat size'"
  let ?b = "(n + ?s - 1) div ?s" and ?off = "min (k * ?s) n"
  have s: "0 < ?s" "?s < 2 ^ 32" using pos unsigned_less[of size', where ?'a = nat]
    by (simp_all add: unat_gt_0 word_greater_zero_iff)
  have u: "unat (word_of_nat ?off :: i64) = ?off" using small by (intro unat_small) simp
  have "?off + ?s < 2 ^ 64" using small s(2) by simp
  then have rd: "read_file L checks (m + k) fs ino (word_of_nat ?off) size' =
      Return (Reply (take ?s (drop ?off (map of_char (text k)))))"
    using read_file_text[OF path run shown, of k checks "word_of_nat ?off" size'] u len small by simp
  show ?case
  proof (cases "k < ?b")
    case False
    with Suc.prems have k: "k = ?b" by simp
    then have "n \<le> k * ?s" using block_iff[OF s(1), of k n] by simp
    then show ?thesis using rd k len by (simp add: woven_def)
  next
    case True
    then have lt: "k * ?s < n" using block_iff[OF s(1)] by blast
    let ?next = "min (Suc k * ?s) n"
    have nxt: "min (k * ?s + ?s) n = ?next" by (simp add: add.commute)
    have d: "take ?s (drop ?off (map of_char (text k))) = woven text ?s (k * ?s) ?next"
      using woven_block[of k ?s "text"] lt len nxt by (simp add: min_absorb1)
    have m: "length (woven text ?s (k * ?s) ?next) = ?next - k * ?s" by (simp add: woven_def)
    with lt s(1) have ne: "woven text ?s (k * ?s) ?next \<noteq> []" by (auto simp: woven_def)
    have off: "(word_of_nat (k * ?s) :: i64) + word_of_nat (?next - k * ?s) = word_of_nat ?next"
      using lt by (simp add: of_nat_add[symmetric] min_absorb1 del: of_nat_add)
    have rest: "read_client L checks (Suc (m + k)) fs ino size' fuel (word_of_nat ?next) =
        (if ?b - Suc k < fuel then ReadAll (woven text ?s ?next n) else ReadUnfinished)"
      using Suc.IH[of "Suc k"] True by simp
    have offk: "?off = k * ?s" using lt by simp
    have rd': "read_file L checks (m + k) fs ino (word_of_nat (k * ?s)) size' =
        Return (Reply (woven text ?s (k * ?s) ?next))"
      using rd unfolding d unfolding offk .
    have joined: "woven text ?s (k * ?s) ?next @ woven text ?s ?next n = woven text ?s (k * ?s) n"
      using lt by (intro woven_append) auto
    show ?thesis
      unfolding offk read_client_step[OF rd' ne off[folded m]] rest
      using True by (auto simp: joined[simplified] Suc_diff_Suc)
  qed
qed simp

section \<open>Replies\<close>

text \<open>Attributes that belong to a known inode, with the mode bits, the size and the blocks of its
  kind.\<close>

definition attr_typed :: "LedgerFilesystem \<Rightarrow> FileAttr \<Rightarrow> bool" where
  "attr_typed fs a \<longleftrightarrow>
     get_path fs (attr_ino a) \<noteq> None
     \<and> attr_perm a = (case attr_kind a of Directory \<Rightarrow> 493 | RegularFile \<Rightarrow> 420)
     \<and> attr_size a \<in> {0, 1024} \<and> (attr_kind a = Directory \<longrightarrow> attr_size a = 0)
     \<and> attr_blocks a = attr_size a div 512 \<and> attr_nlink a = 1"

lemma create_file_attr_typed:
  "get_path fs i \<noteq> None \<Longrightarrow> size' = 0 \<or> size' = 1024 \<and> \<not> is_dir \<Longrightarrow> attr_typed fs (create_file_attr now i size' is_dir)"
  by (auto simp: attr_typed_def create_file_attr_def)

lemma lookup_typed:
  assumes "inodes_ok fs" and "unat (next_inode fs) + 1 < 2 ^ 64"
    and "lookup_entry L now fs parent name = (Reply (ttl, a), fs')"
  shows "ttl = TTL \<and> attr_typed fs' a"
proof (cases "get_path fs parent")
  case (Some p)
  from lookup_reaches[OF assms(1,2) Some, of L now name] assms(3) show ?thesis
    by (auto simp: create_file_attr_typed)
qed (use assms(3) in \<open>simp add: lookup_entry_def\<close>)

lemma getattr_reply:
  "getattr now fs i = Reply (ttl, a) \<longleftrightarrow>
     (\<exists>p. get_path fs i = Some p \<and> ttl = TTL
        \<and> a = create_file_attr now i (if getattr_is_dir p then 0 else 1024) (getattr_is_dir p))"
  by (auto simp: getattr_def Let_def split: option.splits)

lemma getattr_typed:
  "getattr now fs i = Reply (ttl, a) \<Longrightarrow> ttl = TTL \<and> attr_ino a = i \<and> attr_typed fs a"
  by (auto simp: getattr_reply create_file_attr_typed) (simp_all add: create_file_attr_def)

lemma listed_is_dir:
  assumes "dir_entries L m fs ino path = Return (Some es, fs')"
  shows "getattr_is_dir path" and "getattr_is_dir (parent_path path)"
proof -
  have "\<nexists>fs'. dir_entries L m fs ino path = Return (None, fs')" using assms by simp
  then have "path \<in> {''/'', ''/accounts'', ''/transactions'', ''/docs''}
      \<or> starts_with path ''/accounts/'' \<and> count_list path slash = 2"
    unfolding dir_entries_None_iff by blast
  then show "getattr_is_dir path" and "getattr_is_dir (parent_path path)"
    using parent_path_account[of path] by (auto simp: getattr_is_dir_def)
qed

lemma entry_getattr:
  assumes "entry_resolves fs path (name, i, kind)" and "getattr_is_dir path"
    and "getattr_is_dir (parent_path path)"
  shows "\<exists>a. getattr now fs i = Reply (TTL, a) \<and> attr_kind a = kind"
proof -
  obtain p where "get_path fs i = Some p" "kind = Directory \<longleftrightarrow> getattr_is_dir p"
    using assms by (auto simp: entry_resolves_def)
  then show ?thesis by (cases kind) (auto simp: getattr_reply create_file_attr_def)
qed

lemma add_entries_set:
  "set (add_entries full xs out) \<subseteq> set out \<union> dirent_of ` set xs"
proof -
  from add_entries_prefix[of full xs out] obtain n where
    "add_entries full xs out = out @ take n (map dirent_of xs)" by blast
  then show ?thesis using set_take_subset[of n "map dirent_of xs"] by auto
qed

lemma readdir_replies:
  assumes "inodes_ok fs" and "unat (next_inode fs) + listing_room L m fs < 2 ^ 64"
    and "account_ids_plain L m fs" and "readdir L m full fs ino offset = Return (Reply ds, fs')"
    and "(i, off, kind, name) \<in> set ds"
  shows "\<exists>a. getattr now fs' i = Reply (TTL, a) \<and> attr_kind a = kind"
  using assms(4)
proof (cases rule: readdir_cases)
  case (listed path es)
  then have ds: "ds = add_entries full (drop (unat offset) (enumerate 0 es)) []" by simp
  obtain j e where j: "(j, e) \<in> set (drop (unat offset) (enumerate 0 es))" "(i, off, kind, name) = dirent_of (j, e)"
    using assms(5) add_entries_set[of full "drop (unat offset) (enumerate 0 es)" "[]"] unfolding ds by auto
  then have e: "e \<in> set es" "e = (name, i, kind)"
    using in_set_dropD[OF j(1)] j(2) nth_mem[of j es]
    by (auto simp: dirent_of_def in_set_enumerate_eq split: prod.splits)
  have "entry_resolves fs' path (name, i, kind)"
    using dir_entries_grows[OF assms(1,2,3) listed(1,3)] e by auto
  from entry_getattr[OF this listed_is_dir[OF listed(3)]] show ?thesis .
qed simp_all

section \<open>A balance file\<close>

lemma demo_balance_file:
  "\<exists>i fs. inodes_ok fs \<and> get_path fs i = Some (balance_path binary_uuid (AccountId 1))
     \<and> (\<forall>m. read_content demo_fuse m fs (balance_path binary_uuid (AccountId 1)) = Return (Inr ''{json}''))"
proof -
  let ?p = "balance_path binary_uuid (AccountId 1)"
  obtain i fs where g: "get_or_create_inode demo_fs ?p = (i, fs)" by (cases "get_or_create_inode demo_fs ?p")
  have "starts_with ?p ''/''" by (simp add: balance_path_def starts_with_def)
  from get_or_create_grows[OF demo_fs_ok _ this g]
  have fs: "inodes_ok fs" "get_path fs i = Some ?p" "balance_repo fs = balance_repo demo_fs"
    by (simp_all add: demo_next grows_def get_path_def)
  have "get_balance (balance_repo fs) m (AccountId 1) = Inr (Some \<lparr>bal_account_id = AccountId 1,
      bal_amount = Amount 5, bal_currency = currency_usd, bal_as_of = 0, bal_version = 1\<rparr>)" for m
    by (simp add: fs(3) demo_fs_def filesystem_new_def)
  from read_content_balance[OF demo_uuid this, of _ "''{json}''"]
  have "read_content demo_fuse m fs ?p = Return (Inr ''{json}'')" for m by (simp add: demo_fuse_def)
  with fs show ?thesis by blast
qed

lemma balance_path_no_dir:
  assumes "uuid_text U"
  shows "\<not> getattr_is_dir (balance_path U a)"
proof -
  have "slash \<notin> set (uuid_to_string U (account_uuid a))"
    using uuid_text.uuid_no_slash[OF assms] by (simp add: slash_def)
  then show ?thesis by (auto dest!: getattr_is_dir_count simp: balance_path_def slash_def)
qed

section \<open>Properties\<close>

text \<open>C22: Reading a file block by block terminates, and gives the whole of it when the file stays the
  same. Let a read at the \<open>i\<close>th moment see a text of its own, all of one length, and a runtime be there at
  each. For any block size but zero, a client that reads on until a reply is empty is done after
  exactly one request more than there are blocks (a last, shorter one counted), and not before; it gets
  as many bytes as the file has, each out of the text of the moment at which its block was read. So it
  gets the content if that does not change meanwhile, and otherwise a mixture that the file may never
  have held.\<close>

theorem chunked_read_complete:
  assumes "get_path fs ino = Some path" and "\<forall>i. fl_runtime L (m + i)"
    and "\<forall>i. read_content L (m + i) fs path = Return (Ok (text i)) \<and> length (text i) = n"
    and "n < 2 ^ 63" and "0 < size'"
  shows "read_client L checks m fs ino size' fuel 0 =
      (if (n + unat size' - 1) div unat size' + 1 \<le> fuel
       then ReadAll (map (\<lambda>p. of_char (text (p div unat size') ! p)) [0..<n]) else ReadUnfinished)
    \<and> ((\<forall>i. text i = text 0) \<longrightarrow>
        map (\<lambda>p. of_char (text (p div unat size') ! p)) [0..<n] = (map of_char (text 0) :: bytes))"
proof
  show "read_client L checks m fs ino size' fuel 0 =
      (if (n + unat size' - 1) div unat size' + 1 \<le> fuel
       then ReadAll (map (\<lambda>p. of_char (text (p div unat size') ! p)) [0..<n]) else ReadUnfinished)"
    using read_client_from[OF assms(1) _ _ _ assms(4,5), of L m "text" 0 checks fuel] assms(2,3)
    by (simp add: woven_def Suc_le_eq)
  show "(\<forall>i. text i = text 0) \<longrightarrow>
      map (\<lambda>p. of_char (text (p div unat size') ! p)) [0..<n] = (map of_char (text 0) :: bytes)"
  proof
    assume "\<forall>i. text i = text 0"
    then have same: "text i = text 0" for i by blast
    have "length (text 0) = n" using assms(3) by blast
    from woven_constant[OF this, unfolded woven_def]
    show "map (\<lambda>p. of_char (text (p div unat size') ! p)) [0..<n] = (map of_char (text 0) :: bytes)"
      by (simp only: same[of "_ div _"])
  qed
qed

theorem chunked_read_complete_witness:
  "\<exists>i fs. read_client demo_fuse True 0 fs i 4 3 0 = ReadAll (map of_char ''{json}'')
     \<and> read_client demo_fuse True 0 fs i 3 2 0 = ReadUnfinished
     \<and> read_client demo_fuse True 0 fs i 3 3 0 = ReadAll (map of_char ''{json}'')"
proof -
  from demo_balance_file obtain i fs where f: "get_path fs i = Some (balance_path binary_uuid (AccountId 1))"
    "read_content demo_fuse m fs (balance_path binary_uuid (AccountId 1)) = Return (Inr ''{json}'')" for m by blast
  have run: "\<forall>i. fl_runtime demo_fuse (0 + i)" by (simp add: demo_fuse_def)
  have shown: "\<forall>i. read_content demo_fuse (0 + i) fs (balance_path binary_uuid (AccountId 1)) =
      Return (Inr ((\<lambda>_. ''{json}'') i)) \<and> length ((\<lambda>_. ''{json}'') i) = 6" using f(2) by simp
  have small: "(6 :: nat) < 2 ^ 63" by simp
  have pos: "0 < (4 :: 32 word)" "0 < (3 :: 32 word)" by simp_all
  note blocks4 = chunked_read_complete[OF f(1) run shown small pos(1), of True]
  note blocks3 = chunked_read_complete[OF f(1) run shown small pos(2), of True]
  show ?thesis using blocks4[of 3] blocks3[of 2] blocks3[of 3] by (intro exI[of _ i] exI[of _ fs]) simp
qed

text \<open>C33: A client that trusts the attributes gets a truncated file: the size of a file is given as
  1024 whatever it holds, so a read of that size returns the first 1024 bytes, and all of them just
  when there are no more.\<close>

theorem attribute_size_truncates:
  assumes "get_path fs ino = Some path" and "fl_runtime L m"
    and "read_content L m fs path = Return (Ok text)"
    and "length text < 2 ^ 63" and "\<not> getattr_is_dir path"
  shows "\<exists>a. getattr now fs ino = Reply (TTL, a) \<and> attr_size a = 1024
    \<and> read_file L checks m fs ino 0 (word_of_nat (unat (attr_size a))) =
        Return (Reply (take 1024 (map of_char text)))
    \<and> (take 1024 (map of_char text) = (map of_char text :: bytes) \<longleftrightarrow> length text \<le> 1024)"
  using read_file_text[OF assms(1-4), of checks 0 1024] assms(1,5)
  by (simp add: getattr_reply create_file_attr_def)

theorem attribute_size_truncates_witness:
  "\<exists>i fs a. getattr 0 fs i = Reply (TTL, a) \<and> attr_size (a :: FileAttr) = 1024
     \<and> read_file demo_fuse True 0 fs i 0 1024 = Return (Reply (map of_char ''{json}''))"
proof -
  from demo_balance_file obtain i fs where f: "get_path fs i = Some (balance_path binary_uuid (AccountId 1))"
    "read_content demo_fuse 0 fs (balance_path binary_uuid (AccountId 1)) = Return (Inr ''{json}'')" by blast
  have "fl_runtime demo_fuse 0" by (simp add: demo_fuse_def)
  from attribute_size_truncates[OF f(1) this f(2) _ balance_path_no_dir[OF binary_uuid_text], of 0 True]
  show ?thesis by clarsimp (metis)
qed

text \<open>C21: Replies are well typed. After any sequence of requests to a new filesystem (with inodes left),
  the attributes a lookup or a \<open>getattr\<close> replies belong to an inode that is known, with the mode,
  size and blocks of its kind, and every entry of a directory page has an inode whose attributes
  can be asked for and are of the kind the entry says.\<close>

theorem replies_well_typed:
  assumes "uuid_text (fl_uuid L)" and "fs = filesystem_new br ar qs"
    and "5 + run_room L fs ops + listing_room L m fs < 2 ^ 64" and "gs = fuse_run L ops fs"
  shows "(\<forall>ttl a hs. lookup_entry L now gs parent name = (Reply (ttl, a), hs) \<longrightarrow> ttl = TTL \<and> attr_typed hs a)
    \<and> (\<forall>ttl a. getattr now gs ino = Reply (ttl, a) \<longrightarrow> ttl = TTL \<and> attr_ino a = ino \<and> attr_typed gs a)
    \<and> (\<forall>ds hs i off kind n. readdir L m full gs ino offset = Return (Reply ds, hs) \<and> (i, off, kind, n) \<in> set ds \<longrightarrow>
         (\<exists>a. getattr now hs i = Reply (TTL, a) \<and> attr_kind a = kind))"
proof -
  have ok: "inodes_ok fs" and start: "unat (next_inode fs) = 5"
    using assms(2) inodes_ok_new by (simp_all add: filesystem_new_def)
  note plain = uuid_ids_plain[OF assms(1)]
  have g: "grows (run_room L fs ops) fs gs"
    unfolding assms(4) by (rule fuse_run_grows[OF ok _ plain]) (use start assms(3) in simp)
  then have gs: "inodes_ok gs" "unat (next_inode gs) + listing_room L m gs < 2 ^ 64"
    using room_grows(1)[OF g, of L m] start assms(3) by (auto simp: grows_def)
  then have "unat (next_inode gs) + 1 < 2 ^ 64" using listing_room_ge[of L m gs] by simp
  note lookup = lookup_typed[OF gs(1) this]
  show ?thesis
  proof (intro conjI)
    show "\<forall>ttl a hs. lookup_entry L now gs parent name = (Reply (ttl, a), hs) \<longrightarrow> ttl = TTL \<and> attr_typed hs a"
      using lookup by blast
    show "\<forall>ttl a. getattr now gs ino = Reply (ttl, a) \<longrightarrow> ttl = TTL \<and> attr_ino a = ino \<and> attr_typed gs a"
      using getattr_typed by blast
    show "\<forall>ds hs i off kind n. readdir L m full gs ino offset = Return (Reply ds, hs) \<and> (i, off, kind, n) \<in> set ds \<longrightarrow>
         (\<exists>a. getattr now hs i = Reply (TTL, a) \<and> attr_kind a = kind)"
      using readdir_replies[OF gs plain] by blast
  qed
qed

theorem replies_well_typed_witness:
  "\<exists>a gs. lookup_entry demo_fuse 0 demo_fs 1 [120] = (Reply (TTL, a), gs) \<and> attr_typed gs a"
proof -
  obtain a gs where l: "lookup_entry demo_fuse 0 demo_fs 1 [120] = (Reply (TTL, a), gs)"
    by (cases "get_or_create_inode demo_fs (child_path ''/'' (fl_to_string_lossy demo_fuse [120]))")
      (simp add: lookup_entry_def demo_root)
  with replies_well_typed[OF demo_uuid demo_fs_def, of "[]" 0 demo_fs] demo_room
  show ?thesis by (auto simp: fuse_run_def)
qed

end
