(* ===== verification/FuseMount.thy ===== *)
theory FuseMount
  imports FuseClient "HOL-Library.AList"
begin

text \<open>
  Mounting and unmounting, \<^verbatim>\<open>lib.rs\<close> and \<^verbatim>\<open>mount.rs\<close> of the FUSE crate, and the mock
  repositories of the binary \<^verbatim>\<open>ledgerfs-fuse.rs\<close>. What the crates, the commands and the signals
  answer are arguments; a function that runs commands also returns the commands it ran. The target
  the crate is compiled for, which selects the unmount commands, is an argument as well.
\<close>

section \<open>Configuration\<close>

record FuseConfig =
  mount_point :: string
  read_only :: bool
  allow_other :: bool
  auto_unmount :: bool

definition fuse_config_default :: FuseConfig where
  "fuse_config_default =
     \<lparr>mount_point = ''/tmp/ledgerfs'', read_only = True, allow_other = False, auto_unmount = True\<rparr>"

text \<open>The two of fuser's options that the code uses.\<close>

datatype MountOption = RO | FSName string

text \<open>The \<^verbatim>\<open>target_os\<close> of the build, as far as the code distinguishes it.\<close>

datatype TargetOs = Linux | MacOs | OtherOs

section \<open>The service\<close>

record LedgerFuseService =
  service_config :: FuseConfig
  service_filesystem :: LedgerFilesystem

definition service_new ::
  "FuseConfig \<Rightarrow> BalanceRepository \<Rightarrow> AccountRepository \<Rightarrow> QueryService \<Rightarrow> LedgerFuseService" where
  "service_new config br ar qs =
     \<lparr>service_config = config, service_filesystem = filesystem_new br ar qs\<rparr>"

text \<open>The outcome of a mount task: an error of the task itself, or the result of \<^verbatim>\<open>mount2\<close>. The
  task mounts a clone of the filesystem: \<^verbatim>\<open>try_unwrap\<close> fails, since the service keeps a
  reference of its own.\<close>

type_synonym mount2 = "LedgerFilesystem \<Rightarrow> string \<Rightarrow> MountOption list \<Rightarrow> string + (string + unit)"

definition service_mount :: "mount2 \<Rightarrow> LedgerFuseService \<Rightarrow> string + unit" where
  "service_mount mount2 svc =
     (let options = [RO, FSName ''ledgerfs''] in
      try_bind (mount2 (filesystem_clone (service_filesystem svc)) (mount_point (service_config svc)) options)
        (\<lambda>r. try_bind r (\<lambda>_. Ok ())))"

text \<open>A command fails to run, or ends with a success flag and its error output.\<close>

type_synonym command = "string list"
type_synonym run_command = "command \<Rightarrow> string + bool \<times> string"

text \<open>The command of the build, if there is one.\<close>

fun unmount_command :: "TargetOs \<Rightarrow> string \<Rightarrow> command option" where
  "unmount_command Linux p = Some [''fusermount'', ''-u'', p]"
| "unmount_command MacOs p = Some [''umount'', p]"
| "unmount_command OtherOs p = None"

fun forced_command :: "TargetOs \<Rightarrow> string \<Rightarrow> command" where
  "forced_command Linux p = [''fusermount'', ''-uz'', p]"
| "forced_command MacOs p = [''umount'', ''-f'', p]"
| "forced_command OtherOs p = []"

definition service_unmount ::
  "TargetOs \<Rightarrow> run_command \<Rightarrow> LedgerFuseService \<Rightarrow> (string + unit) \<times> command list" where
  "service_unmount os run_cmd svc =
     (case unmount_command os (mount_point (service_config svc)) of
        None \<Rightarrow> (Ok (), [])
      | Some c \<Rightarrow>
          (case run_cmd c of
             Inl e \<Rightarrow> (Err e, [c])
           | Inr (success, stderr) \<Rightarrow>
               (if \<not> success then (Err (''Failed to unmount: '' @ stderr), [c]) else (Ok (), [c]))))"

section \<open>The mount manager\<close>

record MountManager =
  manager_config :: FuseConfig
  manager_filesystem :: LedgerFilesystem

definition manager_new ::
  "FuseConfig \<Rightarrow> BalanceRepository \<Rightarrow> AccountRepository \<Rightarrow> QueryService \<Rightarrow> MountManager" where
  "manager_new config br ar qs =
     \<lparr>manager_config = config, manager_filesystem = filesystem_new br ar qs\<rparr>"

definition manager_unmount ::
  "TargetOs \<Rightarrow> run_command \<Rightarrow> MountManager \<Rightarrow> (string + unit) \<times> command list" where
  "manager_unmount os run_cmd mgr =
     (case unmount_command os (mount_point (manager_config mgr)) of
        None \<Rightarrow> (Ok (), [])
      | Some c \<Rightarrow>
          (case run_cmd c of
             Inl e \<Rightarrow> (Err e, [c])
           | Inr (success, stderr) \<Rightarrow>
               (if \<not> success then (Ok (), [c, forced_command os (mount_point (manager_config mgr))])
                else (Ok (), [c]))))"

text \<open>What the final \<^verbatim>\<open>select!\<close> of \<^verbatim>\<open>mount_and_serve\<close> waits for: the end of the mount task, whose
  outcome \<open>mount2\<close> gives, or the interrupt signal.\<close>

datatype serve_event = MountEnded | CtrlC

definition mount_and_serve ::
  "TargetOs \<Rightarrow> (string \<Rightarrow> string + unit) \<Rightarrow> mount2 \<Rightarrow> run_command \<Rightarrow> serve_event \<Rightarrow> MountManager
     \<Rightarrow> (string + unit) \<times> command list"
where
  "mount_and_serve os create_dir_all mount2 run_cmd event mgr =
     (case create_dir_all (mount_point (manager_config mgr)) of
        Inl e \<Rightarrow> (Err e, [])
      | Inr _ \<Rightarrow>
          (let options = [RO, FSName ''ledgerfs'']; fs = filesystem_clone (manager_filesystem mgr) in
           case event of
             MountEnded \<Rightarrow>
               (case mount2 fs (mount_point (manager_config mgr)) options of
                  Inr (Inr _) \<Rightarrow> (Ok (), [])
                | Inr (Inl e) \<Rightarrow> (Ok (), [])
                | Inl e \<Rightarrow> (Ok (), []))
           | CtrlC \<Rightarrow>
               (case manager_unmount os run_cmd mgr of
                  (Inl e, cs) \<Rightarrow> (Err e, cs)
                | (Inr _, cs) \<Rightarrow> (Ok (), cs))))"

section \<open>Mock repositories\<close>

text \<open>The maps of the mocks are lists of entries; \<open>swapped\<close> is the order in which the account map
  is iterated, which the hash function decides. The clock readings are arguments, one for each reading
  of the code.\<close>

definition mock_balances :: "AccountId list \<Rightarrow> DateTime \<Rightarrow> DateTime \<Rightarrow> (AccountId \<times> Balance) list" where
  "mock_balances accounts now0 now1 =
     (if length accounts \<ge> 2 then
        AList.update (accounts ! 1)
          \<lparr>bal_account_id = accounts ! 1, bal_amount = amount_new 250000, bal_currency = currency_eur,
           bal_as_of = now1, bal_version = 1\<rparr>
        (AList.update (accounts ! 0)
          \<lparr>bal_account_id = accounts ! 0, bal_amount = amount_new 100000, bal_currency = currency_usd,
           bal_as_of = now0, bal_version = 1\<rparr> [])
      else [])"

definition mock_balance_repository :: "(AccountId \<times> Balance) list \<Rightarrow> BalanceRepository" where
  "mock_balance_repository balances =
     \<lparr>get_balance = (\<lambda>_ a. Ok (map_of balances a)),
      update_balance = (\<lambda>_ _. Ok ()),
      get_balances = (\<lambda>_ as. Ok (List.map_filter (map_of balances) as))\<rparr>"

definition mock_account :: "AccountId \<Rightarrow> Currency \<Rightarrow> string \<Rightarrow> string list \<Rightarrow> DateTime \<Rightarrow> DateTime \<Rightarrow> Account" where
  "mock_account a c customer flags created updated =
     \<lparr>acc_id = a, acc_status = Active,
      acc_metadata = \<lparr>am_account_type = Customer, am_currency = c,
        am_tags = fmupd ''customer_id'' customer fmempty, am_regulatory_flags = flags\<rparr>,
      acc_created_at = created, acc_updated_at = updated\<rparr>"

definition mock_accounts :: "bool \<Rightarrow> AccountId list \<Rightarrow> (nat \<Rightarrow> DateTime) \<Rightarrow> (AccountId \<times> Account) list" where
  "mock_accounts swapped account_ids now =
     (if length account_ids \<ge> 2 then
        (if swapped then rev else id)
          (AList.update (account_ids ! 1)
            (mock_account (account_ids ! 1) currency_eur ''cust_002'' [''KYC_VERIFIED'', ''PEP_CHECK'']
               (now 2) (now 3))
          (AList.update (account_ids ! 0)
            (mock_account (account_ids ! 0) currency_usd ''cust_001'' [''KYC_VERIFIED''] (now 0) (now 1)) []))
      else [])"

definition mock_account_repository :: "(AccountId \<times> Account) list \<Rightarrow> AccountRepository" where
  "mock_account_repository accounts =
     \<lparr>get_account = (\<lambda>_ a. Ok (map_of accounts a)),
      save_account = (\<lambda>_ _. Ok ()),
      find_accounts = (\<lambda>_ _. Ok (map snd accounts))\<rparr>"

text \<open>\<^verbatim>\<open>{:03}\<close> pads with zeros to three digits.\<close>

definition pad3 :: "nat \<Rightarrow> string" where
  "pad3 n = replicate (3 - length (show_nat n)) CHR ''0'' @ show_nat n"

definition mock_transaction :: "(nat \<Rightarrow> uuid) \<Rightarrow> (nat \<Rightarrow> DateTime) \<Rightarrow> AccountId \<Rightarrow> nat \<Rightarrow> TransactionProcessedEvent"
where
  "mock_transaction v4 now account_id i =
     \<lparr>tp_transaction_id = transaction_id_new (v4 i),
      tp_transaction_type = (if i mod 2 = 0 then Credit else Debit),
      tp_from_account = (if i mod 2 = 0 then None else Some account_id),
      tp_to_account = (if i mod 2 = 0 then Some account_id else None),
      tp_amount = amount_new ((word_of_nat i + 1) * 1000),
      tp_currency = currency_usd,
      tp_metadata = \<lparr>tm_reference = Some (''REF_'' @ pad3 i),
        tm_description = Some (''Test transaction '' @ show_nat i), tm_tags = fmempty,
        tm_regulatory_flags = []\<rparr>,
      tp_processed_at = now i - int i * 3600 * 1000000000\<rparr>"

definition mock_history ::
  "(nat \<Rightarrow> uuid) \<Rightarrow> (nat \<Rightarrow> DateTime) \<Rightarrow> AccountId \<Rightarrow> nat option \<Rightarrow> TransactionProcessedEvent list" where
  "mock_history v4 now account_id limit_opt =
     (let limit = (case limit_opt of Some n \<Rightarrow> n | None \<Rightarrow> 10)
      in map (mock_transaction v4 now account_id) [0..<min limit 5])"

text \<open>Each call draws identifiers and reads the clock anew, for each transaction.\<close>

definition mock_query_service :: "(moment \<Rightarrow> nat \<Rightarrow> uuid) \<Rightarrow> (moment \<Rightarrow> nat \<Rightarrow> DateTime) \<Rightarrow> QueryService" where
  "mock_query_service v4 clock =
     \<lparr>get_balance_at_time = (\<lambda>_ _ _. Ok None),
      get_transaction_history =
        (\<lambda>m account_id _ _ limit. Ok (mock_history (v4 m) (clock m) account_id limit)),
      search_transactions = (\<lambda>_ _ _. Ok [])\<rparr>"

text \<open>The binary: two new accounts, the mocks, and the manager that serves them. \<open>now\<close> are the
  clock readings at the start, two for the balances and then four for the accounts; \<open>v4\<close> and \<open>clock\<close>
  are what the query service draws and reads at each moment.\<close>

definition main_manager ::
  "string option \<Rightarrow> uuid \<Rightarrow> uuid \<Rightarrow> bool \<Rightarrow> (nat \<Rightarrow> DateTime)
     \<Rightarrow> (moment \<Rightarrow> nat \<Rightarrow> uuid) \<Rightarrow> (moment \<Rightarrow> nat \<Rightarrow> DateTime) \<Rightarrow> MountManager"
where
  "main_manager arg1 u0 u1 swapped now v4 clock =
     (let mount_pt = (case arg1 of Some s \<Rightarrow> s | None \<Rightarrow> ''/tmp/ledgerfs'');
          account_ids = [account_id_new u0, account_id_new u1];
          balance = mock_balance_repository (mock_balances account_ids (now 0) (now 1));
          account = mock_account_repository (mock_accounts swapped account_ids (\<lambda>i. now (i + 2)));
          query = mock_query_service v4 clock;
          config = \<lparr>mount_point = mount_pt, read_only = True, allow_other = False, auto_unmount = True\<rparr>
      in manager_new config balance account query)"

text \<open>\<^verbatim>\<open>main\<close>: its exit, the lines it prints and the commands it ran. \<^verbatim>\<open>args[0]\<close> panics when there is
  no argument at all, not even the program's name.\<close>

definition ledgerfs_main ::
  "TargetOs \<Rightarrow> (string \<Rightarrow> string + unit) \<Rightarrow> mount2 \<Rightarrow> run_command \<Rightarrow> serve_event
     \<Rightarrow> uuid \<Rightarrow> uuid \<Rightarrow> bool \<Rightarrow> (nat \<Rightarrow> DateTime) \<Rightarrow> (moment \<Rightarrow> nat \<Rightarrow> uuid) \<Rightarrow> (moment \<Rightarrow> nat \<Rightarrow> DateTime)
     \<Rightarrow> string list
     \<Rightarrow> ((string + unit) \<times> string list \<times> command list) run"
where
  "ledgerfs_main os create_dir_all mount2 run_cmd event u0 u1 swapped now v4 clock args =
     (case args of
        [] \<Rightarrow> Panic
      | program # rest \<Rightarrow>
          (let arg1 = (case rest of [] \<Rightarrow> None | m # _ \<Rightarrow> Some m);
               mgr = main_manager arg1 u0 u1 swapped now v4 clock;
               out = [''LedgerFS FUSE - Mounting at: '' @ mount_point (manager_config mgr),
                      ''Usage: '' @ program @ '' [mount_point]'',
                      ''Press Ctrl+C to unmount and exit'']
           in case mount_and_serve os create_dir_all mount2 run_cmd event mgr of
                (Inl e, cs) \<Rightarrow> Return (Err e, out, cs)
              | (Inr _, cs) \<Rightarrow> Return (Ok (), out @ [''LedgerFS unmounted successfully''], cs)))"

section \<open>Lemmas\<close>

lemma mock_history_transactions:
  "map tp_transaction_id (mock_history v4 now a (Some 100)) = map TransactionId (map v4 [0..<5])
   \<and> map tp_amount (mock_history v4 now a (Some 100)) = map Amount [1000, 2000, 3000, 4000, 5000]
   \<and> (\<forall>t\<in>set (mock_history v4 now a l). tp_from_account t = Some a \<or> tp_to_account t = Some a)"
  by (auto simp: mock_history_def mock_transaction_def transaction_id_new_def amount_new_def upt_conv_Cons)

text \<open>The listing of a directory by a client with room for all of it.\<close>

lemma add_entries_all: "add_entries (\<lambda>_ _. False) xs out = out @ map dirent_of xs"
  by (induction "\<lambda>(_ :: dirent list) (_ :: dirent). False" xs out rule: add_entries.induct)
    (simp_all add: dirent_of_def Let_def)

lemma readdir_all:
  "get_path fs ino = Some path \<Longrightarrow> dir_entries L m fs ino path = Return (Some es, fs') \<Longrightarrow>
     readdir L m (\<lambda>_ _. False) fs ino 0 = Return (Reply (dirents es), fs')"
  by (simp add: readdir_def add_entries_all dirents_def)

lemma accounts_listed:
  assumes "inodes_ok fs" and "unat (next_inode fs) + length as < 2 ^ 64"
    and "fl_runtime L m" and "list_accounts L m fs = Inr as"
  shows "\<exists>inode fs'. readdir L m (\<lambda>_ _. False) fs 2 0 = Return (Reply (dirents
        ([(''.'', 2, Directory), (''..'', 1, Directory)] @ map (\<lambda>a. (a, inode a, Directory)) as)), fs')
    \<and> grows (length as) fs fs' \<and> (\<forall>a\<in>set as. get_path fs' (inode a) = Some (''/accounts/'' @ a))"
proof -
  let ?dots = "[(''.'', 2, Directory), (''..'', 1, Directory)]"
  obtain es fs' where p: "push_accounts as fs ?dots = (es, fs')" by (cases "push_accounts as fs ?dots")
  note g = push_accounts_grows[OF assms(1,2) p]
  let ?inode = "\<lambda>a. the (path_map fs' (''/accounts/'' @ a))"
  have "dir_entries L m fs 2 ''/accounts'' = Return (Some es, fs')"
    using p assms(3,4) by (simp add: dir_entries_def)
  from readdir_all[OF fixed_paths(2)[OF assms(1)] this]
  have "readdir L m (\<lambda>_ _. False) fs 2 0 =
      Return (Reply (dirents (?dots @ map (\<lambda>a. (a, ?inode a, Directory)) as)), fs')" using g by simp
  moreover have "get_path fs' (?inode a) = Some (''/accounts/'' @ a)" if "a \<in> set as" for a
    using g that by (auto simp: get_path_def grows_def inodes_ok_inverse)
  ultimately show ?thesis using g by (intro exI[of _ ?inode] exI[of _ fs'] conjI ballI) simp_all
qed

lemma account_listed:
  assumes "inodes_ok fs" and "unat (next_inode fs) + 2 < 2 ^ 64"
    and "get_path fs ino = Some (''/accounts/'' @ a)" and "slash \<notin> set a"
  shows "\<exists>k l fs'. readdir L m (\<lambda>_ _. False) fs ino 0 = Return (Reply (dirents
        [(''.'', ino, Directory), (''..'', 2, Directory), (''balance.json'', k, RegularFile),
         (''tx.log'', l, RegularFile)]), fs')
    \<and> grows 2 fs fs' \<and> get_path fs' k = Some (''/accounts/'' @ a @ ''/balance.json'')
    \<and> get_path fs' l = Some (''/accounts/'' @ a @ ''/tx.log'')"
proof -
  let ?p = "''/accounts/'' @ a"
  obtain k fs1 where 1: "get_or_create_inode fs (?p @ ''/balance.json'') = (k, fs1)"
    by (cases "get_or_create_inode fs (?p @ ''/balance.json'')")
  obtain l fs' where 2: "get_or_create_inode fs1 (?p @ ''/tx.log'') = (l, fs')"
    by (cases "get_or_create_inode fs1 (?p @ ''/tx.log'')")
  have p: "starts_with ?p ''/''" "starts_with ?p ''/accounts/''" "count_list ?p slash = 2"
    "?p \<noteq> ''/''" "?p \<noteq> ''/accounts''"
    using assms(4) by (auto simp: starts_with_def slash_def)
  have "dir_entries L m fs ino ?p = Return (Some [(''.'', ino, Directory), (''..'', 2, Directory),
      (''balance.json'', k, RegularFile), (''tx.log'', l, RegularFile)], fs')"
    using p(2-5) by (simp only: dir_entries_def 1 2 Let_def prod.case if_True if_False simp_thms)
  from readdir_all[OF assms(3) this] account_files_grow[OF assms(1,2) p(1) 1 2]
  show ?thesis by (auto simp: get_path_def)
qed

text \<open>The transaction log of an account.\<close>

lemma log_third:
  assumes "uuid_text U"
  shows "third_segment (transaction_log_path U a) = Return (uuid_to_string U (account_uuid a))"
proof -
  have free: "slash \<notin> set (uuid_to_string U (account_uuid a))"
    using uuid_text.uuid_no_slash[OF assms, of "account_uuid a"] by (simp add: slash_def)
  have "split_on slash (transaction_log_path U a) =
      [''''] @ [''accounts''] @ [uuid_to_string U (account_uuid a)] @ [''tx.log'']"
    unfolding transaction_log_path_def split_account
    using split_on_sep[OF free, of "''tx.log''"] by (simp add: slash_def)
  then show ?thesis by (simp add: third_segment_def Let_def)
qed

lemma log_value:
  assumes "uuid_text (fl_uuid L)"
    and "get_transaction_history (query_service fs) m (AccountId u) None None (Some 100) = Inr ts"
  shows "content_value L m fs (transaction_log_path (fl_uuid L) (AccountId u)) = Some (history_value u ts)"
proof -
  let ?p = "transaction_log_path (fl_uuid L) (AccountId u)"
  have "ends_with ?p ''/tx.log''" by (simp add: ends_with_suffix suffix_def transaction_log_path_def)
  moreover have "\<not> ends_with ?p ''/balance.json''"
    by (rule ends_with_last_differs) (simp_all add: transaction_log_path_def)
  ultimately show ?thesis
    using log_third[OF assms(1), of "AccountId u"] uuid_text.parse_to_string[OF assms(1), of u] assms(2)
    by (simp add: content_value_def)
qed

lemma account_balance_value:
  assumes "uuid_text (fl_uuid L)" and "get_balance (balance_repo fs) m (AccountId u) = Inr (Some b)"
  shows "content_value L m fs (balance_path (fl_uuid L) (AccountId u)) = Some (balance_value b)"
proof -
  have "ends_with (balance_path (fl_uuid L) (AccountId u)) ''/balance.json''"
    by (simp add: ends_with_suffix suffix_def balance_path_def)
  then show ?thesis
    using balance_third[OF assms(1), of "AccountId u"] uuid_text.parse_to_string[OF assms(1), of u] assms(2)
    by (simp add: content_value_def)
qed

text \<open>A file that holds a text: every read of it returns the slice asked for.\<close>

definition file_holds :: "FuseLibs \<Rightarrow> moment \<Rightarrow> LedgerFilesystem \<Rightarrow> u64 \<Rightarrow> string \<Rightarrow> bool" where
  "file_holds L m fs ino t \<longleftrightarrow>
     (\<forall>checks offset size'. unat offset + unat size' < 2 ^ 64 \<longrightarrow>
        read_file L checks m fs ino offset size' =
          Return (Reply (take (unat size') (drop (unat offset) (map of_char t)))))"

lemma file_holds_value:
  assumes "get_path fs ino = Some path" and "fl_runtime L m" and "content_value L m fs path = Some v"
    and "fl_to_string_pretty L m v = Some t" and "length t < 2 ^ 63"
  shows "file_holds L m fs ino t"
  using read_file_text[OF assms(1,2) _ assms(5)] read_content_value[OF assms(3)] assms(4)
  by (simp add: file_holds_def)

text \<open>The directory of an account: its listing, and what its two files hold at any moment, the balance
  and a history of five transactions with identifiers drawn at that moment.\<close>

definition account_served ::
  "FuseLibs \<Rightarrow> (moment \<Rightarrow> JsonValue \<Rightarrow> string) \<Rightarrow> (moment \<Rightarrow> nat \<Rightarrow> uuid) \<Rightarrow> moment \<Rightarrow> LedgerFilesystem \<Rightarrow> u64
     \<Rightarrow> uuid \<Rightarrow> i64 \<Rightarrow> string \<Rightarrow> bool"
where
  "account_served L render v4 m1 fs ino u amount currency \<longleftrightarrow>
     (\<exists>k l fs' as_of.
        readdir L m1 (\<lambda>_ _. False) fs ino 0 = Return (Reply (dirents
          [(''.'', ino, Directory), (''..'', 2, Directory),
           (''balance.json'', k, RegularFile), (''tx.log'', l, RegularFile)]), fs')
        \<and> (\<forall>m. file_holds L m fs' k (render m (balance_value \<lparr>bal_account_id = AccountId u,
                bal_amount = Amount amount, bal_currency = Currency currency, bal_as_of = as_of, bal_version = 1\<rparr>)))
        \<and> (\<forall>m. \<exists>ts. file_holds L m fs' l (render m (history_value u ts))
            \<and> map tp_transaction_id ts = map TransactionId (map (v4 m) [0..<5])
            \<and> map tp_amount ts = map Amount [1000, 2000, 3000, 4000, 5000]
            \<and> (\<forall>t\<in>set ts. tp_from_account t = Some (AccountId u) \<or> tp_to_account t = Some (AccountId u))))"

lemma demo_account_served:
  assumes "uuid_text (fl_uuid L)" and "u0 \<noteq> u1" and "\<forall>m. fl_runtime L m"
    and "\<forall>m v. fl_to_string_pretty L m v = Some (render m v) \<and> length (render m v) < 2 ^ 63"
    and "fs = manager_filesystem (main_manager arg1 u0 u1 swapped now v4 clock)"
    and fs1: "inodes_ok fs1" "unat (next_inode fs1) + 2 < 2 ^ 64"
      "balance_repo fs1 = balance_repo fs" "query_service fs1 = query_service fs"
    and known: "get_path fs1 ino = Some (''/accounts/'' @ uuid_to_string (fl_uuid L) u)"
    and u: "(u, amount, currency) \<in> {(u0, 100000, ''USD''), (u1, 250000, ''EUR'')}"
  shows "account_served L render v4 m1 fs1 ino u amount currency"
proof -
  have "slash \<notin> set (uuid_to_string (fl_uuid L) u)"
    using uuid_text.uuid_no_slash[OF assms(1)] by (simp add: slash_def)
  from account_listed[OF fs1(1,2) known this, of L m1] obtain k l fs2 where
    2: "readdir L m1 (\<lambda>_ _. False) fs1 ino 0 = Return (Reply (dirents
          [(''.'', ino, Directory), (''..'', 2, Directory),
           (''balance.json'', k, RegularFile), (''tx.log'', l, RegularFile)]), fs2)"
        "grows 2 fs1 fs2" "get_path fs2 k = Some (balance_path (fl_uuid L) (AccountId u))"
        "get_path fs2 l = Some (transaction_log_path (fl_uuid L) (AccountId u))"
    by (auto simp: balance_path_def transaction_log_path_def)
  have same: "balance_repo fs2 = balance_repo fs" "query_service fs2 = query_service fs"
    using fs1(3,4) 2(2) by (simp_all add: grows_def)
  obtain as_of where "get_balance (balance_repo fs2) m (AccountId u) = Inr (Some \<lparr>bal_account_id = AccountId u,
      bal_amount = Amount amount, bal_currency = Currency currency, bal_as_of = as_of, bal_version = 1\<rparr>)" for m
    using assms(2) u unfolding same unfolding assms(5)
    by (auto simp: main_manager_def manager_new_def filesystem_new_def mock_balance_repository_def
        mock_balances_def account_id_new_def amount_new_def currency_usd_def currency_eur_def
        currency_new_def Let_def)
  note balance = account_balance_value[OF assms(1) this]
  let ?ts = "\<lambda>m. mock_history (v4 m) (clock m) (AccountId u) (Some 100)"
  have "get_transaction_history (query_service fs2) m (AccountId u) None None (Some 100) = Inr (?ts m)" for m
    unfolding same unfolding assms(5)
    by (simp add: main_manager_def manager_new_def filesystem_new_def mock_query_service_def Let_def)
  note history = log_value[OF assms(1) this]
  have run: "fl_runtime L m" for m using assms(3) by blast
  have shown: "fl_to_string_pretty L m v = Some (render m v)" "length (render m v) < 2 ^ 63" for m v
    using assms(4) by blast+
  have "\<forall>m. \<exists>ts. file_holds L m fs2 l (render m (history_value u ts))
      \<and> map tp_transaction_id ts = map TransactionId (map (v4 m) [0..<5])
      \<and> map tp_amount ts = map Amount [1000, 2000, 3000, 4000, 5000]
      \<and> (\<forall>t\<in>set ts. tp_from_account t = Some (AccountId u) \<or> tp_to_account t = Some (AccountId u))"
    using file_holds_value[OF 2(4) run history shown] mock_history_transactions by blast
  with 2(1) file_holds_value[OF 2(3) run balance shown] show ?thesis unfolding account_served_def by blast
qed

section \<open>Properties\<close>

text \<open>Only the mount point of the configuration matters: a mount is always read-only and named, and
  neither \<open>read_only\<close> nor \<open>allow_other\<close> nor \<open>auto_unmount\<close> changes what is passed to fuser, by the
  service or by the manager.\<close>

theorem mount_ignores_flags:
  "service_mount mount2 (service_new config br ar qs) =
     try_bind (mount2 (filesystem_new br ar qs) (mount_point config) [RO, FSName ''ledgerfs''])
       (\<lambda>r. r)
   \<and> service_mount mount2 (service_new (config\<lparr>read_only := x, allow_other := y, auto_unmount := z\<rparr>) br ar qs)
     = service_mount mount2 (service_new config br ar qs)
   \<and> mount_and_serve os mkdir mount2 run_cmd ev
       (manager_new (config\<lparr>read_only := x, allow_other := y, auto_unmount := z\<rparr>) br ar qs)
     = mount_and_serve os mkdir mount2 run_cmd ev (manager_new config br ar qs)"
proof -
  have id: "try_bind r Inr = r" for r :: "string + unit" by (cases r) auto
  have clone: "filesystem_clone fs = fs" for fs by (simp add: filesystem_clone_def)
  show ?thesis
    by (cases "mkdir (mount_point config)"; cases ev)
      (simp_all add: service_mount_def service_new_def mount_and_serve_def manager_new_def
        manager_unmount_def clone id Let_def split: sum.split option.split prod.split)
qed

text \<open>C40: How failures surface, for any manager, and on every target. Once the mount point exists,
  \<open>mount_and_serve\<close> succeeds whenever the mount ends, however it ended. After an interrupt it fails
  exactly if there is an unmount command that could not be run: a command that ran and did not succeed
  is followed by a forced one, whose outcome is ignored, where the service reports it as an error. On a
  target that has no command nothing is run, and both succeed. And \<^verbatim>\<open>main\<close>, whose mount has ended, even
  with an error, prints that the filesystem was unmounted and exits with success.\<close>

theorem manager_hides_failures:
  assumes "create_dir_all p = Ok ()" and "p = mount_point (manager_config mgr)"
    and "p = mount_point (service_config svc)"
  shows "mount_and_serve os create_dir_all mount2 run_cmd MountEnded mgr = (Ok (), [])
    \<and> mount_and_serve os create_dir_all mount2 run_cmd CtrlC mgr =
        (case unmount_command os p of
           None \<Rightarrow> (Ok (), [])
         | Some c \<Rightarrow> (case run_cmd c of
             Inl e \<Rightarrow> (Err e, [c])
           | Inr (success, stderr) \<Rightarrow>
               (Ok (), if success then [c] else [c, forced_command os p])))
    \<and> fst (service_unmount os run_cmd svc) =
        (case unmount_command os p of
           None \<Rightarrow> Ok ()
         | Some c \<Rightarrow> (case run_cmd c of
             Inl e \<Rightarrow> Err e
           | Inr (success, stderr) \<Rightarrow> if success then Ok () else Err (''Failed to unmount: '' @ stderr)))
    \<and> (unmount_command os p = None \<longleftrightarrow> os = OtherOs)
    \<and> (\<forall>arg1. p = (case arg1 of Some s \<Rightarrow> s | None \<Rightarrow> ''/tmp/ledgerfs'') \<longrightarrow>
        (\<exists>out. ledgerfs_main os create_dir_all mount2 run_cmd MountEnded u0 u1 swapped now v4 clock
            (program # (case arg1 of None \<Rightarrow> [] | Some s \<Rightarrow> [s]))
          = Return (Ok (), out @ [''LedgerFS unmounted successfully''], [])))"
proof -
  have ended: "mount_and_serve os create_dir_all mount2 run_cmd MountEnded mgr' = (Ok (), [])"
    if "p = mount_point (manager_config mgr')" for mgr'
    using assms(1) that by (simp add: mount_and_serve_def Let_def split: sum.splits)
  have "\<exists>out. ledgerfs_main os create_dir_all mount2 run_cmd MountEnded u0 u1 swapped now v4 clock
         (program # (case arg1 of None \<Rightarrow> [] | Some s \<Rightarrow> [s]))
       = Return (Ok (), out @ [''LedgerFS unmounted successfully''], [])"
    if "p = (case arg1 of Some s \<Rightarrow> s | None \<Rightarrow> ''/tmp/ledgerfs'')" for arg1
  proof -
    have "p = mount_point (manager_config (main_manager arg1 u0 u1 swapped now v4 clock))"
      using that by (simp add: main_manager_def manager_new_def Let_def)
    from ended[OF this] show ?thesis by (cases arg1) (auto simp: ledgerfs_main_def Let_def)
  qed
  moreover have "unmount_command os p = None \<longleftrightarrow> os = OtherOs" by (cases os) simp_all
  ultimately show ?thesis
    using ended[OF assms(2)] assms
    by (auto simp: mount_and_serve_def manager_unmount_def service_unmount_def Let_def
        split: option.split sum.split prod.split)
qed

theorem manager_hides_failures_witness:
  "(\<exists>out. ledgerfs_main MacOs (\<lambda>_. Ok ()) (\<lambda>_ _ _. Ok (Err ''no fuse'')) (\<lambda>_. Ok (False, ''busy'')) MountEnded
       1 2 False (\<lambda>_. 0) (\<lambda>_ _. 0) (\<lambda>_ _. 0) [''ledgerfs-fuse''] =
       Return (Ok (), out @ [''LedgerFS unmounted successfully''], []))
   \<and> fst (service_unmount MacOs (\<lambda>_. Ok (False, ''busy''))
       \<lparr>service_config = fuse_config_default, service_filesystem = demo_fs\<rparr>) = Err ''Failed to unmount: busy''"
proof -
  let ?mgr = "\<lparr>manager_config = fuse_config_default, manager_filesystem = demo_fs\<rparr>"
  let ?svc = "\<lparr>service_config = fuse_config_default, service_filesystem = demo_fs\<rparr>"
  have point: "''/tmp/ledgerfs'' = mount_point (manager_config ?mgr)"
    "''/tmp/ledgerfs'' = mount_point (service_config ?svc)" by (simp_all add: fuse_config_default_def)
  note all = manager_hides_failures[of "\<lambda>_. Inr ()", OF refl point, of MacOs "\<lambda>_ _ _. Inr (Inl ''no fuse'')"
      "\<lambda>_. Inr (False, ''busy'')" 1 2 False "\<lambda>_. 0" "\<lambda>_ _. 0" "\<lambda>_ _. 0" "''ledgerfs-fuse''", THEN conjunct2,
      THEN conjunct2]
  from all[THEN conjunct1] all[THEN conjunct2, THEN conjunct2, THEN spec[of _ None]] show ?thesis by simp
qed

text \<open>C24: What the demonstration binary serves, from end to end, while runtimes can be made and values
  printed. The listing of \<^verbatim>\<open>/accounts\<close> of a fresh mount holds, besides the dots, the two accounts it made
  (if their random identifiers differ), in the order of its hash map, and no other; the listing of either of them, by the inode of the first
  listing, holds besides the dots the two files; and reads of their inodes give, at any moment, offset
  and size, the slices of the printed 1000 dollars or 2500 euros, and of a history of five transactions
  of 10 to 50 that all involve the account, with identifiers drawn anew at that moment.\<close>

theorem demo_binary_serves:
  assumes "uuid_text (fl_uuid L)" and "u0 \<noteq> u1" and "\<forall>m. fl_runtime L m"
    and "\<forall>m v. fl_to_string_pretty L m v = Some (render m v) \<and> length (render m v) < 2 ^ 63"
    and "fs = manager_filesystem (main_manager arg1 u0 u1 swapped now v4 clock)"
  shows "\<exists>inode fs1.
    readdir L m0 (\<lambda>_ _. False) fs 2 0 = Return (Reply (dirents
        ([(''.'', 2, Directory), (''..'', 1, Directory)]
         @ map (\<lambda>u. (uuid_to_string (fl_uuid L) u, inode u, Directory)) (if swapped then [u1, u0] else [u0, u1]))), fs1)
    \<and> account_served L render v4 m1 fs1 (inode u0) u0 100000 ''USD''
    \<and> account_served L render v4 m1 fs1 (inode u1) u1 250000 ''EUR''"
proof -
  let ?name = "uuid_to_string (fl_uuid L)" and ?us = "if swapped then [u1, u0] else [u0, u1]"
  have new: "inodes_ok fs" "unat (next_inode fs) = 5"
    unfolding assms(5) by (simp_all add: main_manager_def manager_new_def Let_def inodes_ok_new)
      (simp add: filesystem_new_def)
  have accounts: "list_accounts L m0 fs = Inr (map ?name ?us)"
    using assms(2) unfolding assms(5)
    by (simp add: list_accounts_def main_manager_def manager_new_def filesystem_new_def
        mock_account_repository_def mock_accounts_def mock_account_def account_id_new_def Let_def)
  have "unat (next_inode fs) + length (map ?name ?us) < 2 ^ 64" using new(2) by simp
  from accounts_listed[OF new(1) this spec[OF assms(3)] accounts] obtain ino fs1 where
    0: "readdir L m0 (\<lambda>_ _. False) fs 2 0 = Return (Reply (dirents ([(''.'', 2, Directory), (''..'', 1, Directory)]
        @ map (\<lambda>a. (a, ino a, Directory)) (map ?name ?us))), fs1)"
      "grows (length (map ?name ?us)) fs fs1"
      "\<forall>a\<in>set (map ?name ?us). get_path fs1 (ino a) = Some (''/accounts/'' @ a)" by blast
  have 1: "grows 2 fs fs1" using 0(2) by (simp add: numeral_2_eq_2 split: if_splits)
  have "set ?us = {u0, u1}" by auto
  with 0(3) have known: "get_path fs1 (ino (?name u)) = Some (''/accounts/'' @ ?name u)" if "u \<in> {u0, u1}" for u
    using that by (simp only: set_map) blast
  have fs1: "inodes_ok fs1" "unat (next_inode fs1) + 2 < 2 ^ 64"
    "balance_repo fs1 = balance_repo fs" "query_service fs1 = query_service fs"
    using 1 new(2) by (auto simp: grows_def)
  note served = demo_account_served[OF assms fs1 known]
  have "readdir L m0 (\<lambda>_ _. False) fs 2 0 = Return (Reply (dirents ([(''.'', 2, Directory), (''..'', 1, Directory)]
      @ map (\<lambda>u. (?name u, (\<lambda>u. ino (?name u)) u, Directory)) ?us)), fs1)"
    using 0(1) by (simp only: map_map comp_def)
  then show ?thesis
    by (rule exI[of _ "\<lambda>u. ino (?name u)", OF exI[of _ fs1, OF conjI]]) (simp add: served)
qed

theorem demo_binary_serves_witness:
  "\<exists>i j fs1. readdir demo_fuse 0 (\<lambda>_ _. False)
       (manager_filesystem (main_manager None 1 2 True (\<lambda>_. 0) (\<lambda>_ _. 0) (\<lambda>_ _. 0))) 2 0 =
     Return (Reply (dirents [(''.'', 2, Directory), (''..'', 1, Directory),
       (uuid_to_string (fl_uuid demo_fuse) 2, i, Directory), (uuid_to_string (fl_uuid demo_fuse) 1, j, Directory)]), fs1)
     \<and> account_served demo_fuse (\<lambda>_ _. ''{json}'') (\<lambda>_ _. 0) 0 fs1 i 2 250000 ''EUR''"
proof -
  have "\<forall>m. fl_runtime demo_fuse m" and "(1 :: uuid) \<noteq> 2"
    and "\<forall>m v. fl_to_string_pretty demo_fuse m v = Some ((\<lambda>_ _. ''{json}'') m v)
      \<and> length ((\<lambda>_ _. ''{json}'') m v) < 2 ^ 63"
    by (simp_all add: demo_fuse_def)
  from demo_binary_serves[OF demo_uuid this(2,1,3) refl, of 0 None True "\<lambda>_. 0" "\<lambda>_ _. 0" "\<lambda>_ _. 0" 0]
  show ?thesis by (elim exE conjE) (simp only: if_True list.map append.simps, blast)
qed

end
