(* ===== verification/ServiceTraits.thy ===== *)
theory ServiceTraits
  imports CoreEvents
begin

text \<open>
  The interfaces of \<^verbatim>\<open>traits.rs\<close> that nothing in the repository implements or calls, as records of
  functions. A method that may change what is behind \<^verbatim>\<open>&self\<close> takes the implementation's state
  \<open>'s\<close> and returns the next one; an asynchronous method is its result after the await. A type
  parameter of a method is one of the record. (The three traits the filesystem calls are in
  \<open>FuseFilesystem\<close>.)
\<close>

type_synonym ('a, 's) ledger_call = "'s \<Rightarrow> (LedgerError + 'a) \<times> 's"

text \<open>The trait has the name of the struct of \<^verbatim>\<open>store.rs\<close>, which does not implement it.\<close>

record 's EventStoreTrait =
  est_append_events :: "string \<Rightarrow> u64 option \<Rightarrow> EventEnvelope list \<Rightarrow> (unit, 's) ledger_call"
  est_get_events :: "string \<Rightarrow> u64 option \<Rightarrow> (EventEnvelope list, 's) ledger_call"
  est_get_events_by_time_range :: "DateTime \<Rightarrow> DateTime \<Rightarrow> (EventEnvelope list, 's) ledger_call"
  est_get_all_events_from_version :: "u64 \<Rightarrow> (EventEnvelope list, 's) ledger_call"
  est_get_current_version :: "string \<Rightarrow> (u64 option, 's) ledger_call"

record ('c, 's) CommandHandler =
  handle_command :: "'c \<Rightarrow> (EventEnvelope list, 's) ledger_call"

record ('e, 's) EventHandler =
  handle_event :: "'e \<Rightarrow> (unit, 's) ledger_call"

record ('t, 's) ReadModelRepository =
  get_by_id :: "string \<Rightarrow> ('t option, 's) ledger_call"
  save_entity :: "'t \<Rightarrow> (unit, 's) ledger_call"
  delete_entity :: "string \<Rightarrow> (unit, 's) ledger_call"
  find_entities :: "(string, string) fmap \<Rightarrow> ('t list, 's) ledger_call"

text \<open>The methods that are not asynchronous are functions of their arguments.\<close>

record 's CryptographicService =
  cs_calculate_hash :: "bytes \<Rightarrow> string"
  build_merkle_tree :: "string list \<Rightarrow> LedgerError + MerkleNode"
  generate_inclusion_proof :: "MerkleNode \<Rightarrow> string \<Rightarrow> LedgerError + MerkleProof"
  verify_inclusion_proof :: "MerkleProof \<Rightarrow> LedgerError + bool"
  generate_digest :: "string \<Rightarrow> u64 \<Rightarrow> u64 \<Rightarrow> (LedgerDigest, 's) ledger_call"

record 's ExternalStorage =
  store_digest :: "LedgerDigest \<Rightarrow> (string, 's) ledger_call"
  retrieve_digest :: "string \<Rightarrow> (LedgerDigest, 's) ledger_call"
  list_digests :: "(string list, 's) ledger_call"

record 's EventStreaming =
  publish_event :: "EventEnvelope \<Rightarrow> (unit, 's) ledger_call"
  subscribe :: "(EventEnvelope \<Rightarrow> LedgerError + unit) \<Rightarrow> (unit, 's) ledger_call"

record ('t, 's) SnapshotStore =
  save_snapshot :: "string \<Rightarrow> u64 \<Rightarrow> 't \<Rightarrow> (unit, 's) ledger_call"
  load_snapshot :: "string \<Rightarrow> ((u64 \<times> 't) option, 's) ledger_call"
  delete_snapshot :: "string \<Rightarrow> (unit, 's) ledger_call"

record FileAttributes =
  fa_size :: u64
  fa_is_directory :: bool
  fa_created_at :: DateTime
  fa_modified_at :: DateTime
  fa_permissions :: "32 word"

record 's FuseFilesystemTrait =
  fft_read_file :: "string \<Rightarrow> 's \<Rightarrow> (FuseError + bytes) \<times> 's"
  fft_list_directory :: "string \<Rightarrow> 's \<Rightarrow> (FuseError + string list) \<times> 's"
  fft_get_file_attributes :: "string \<Rightarrow> 's \<Rightarrow> (FuseError + FileAttributes) \<times> 's"

end
