(* ===== verification/StoreConfig.thy ===== *)
theory StoreConfig
  imports CoreTypes
begin

text \<open>
  \<^verbatim>\<open>config.rs\<close> of the event store: the configuration struct, its default and its
  builders, and the translation of the compression choice to RocksDB's own enumeration.
\<close>

datatype CompressionType =
  NoCompression | Snappy | Zlib | Bz2 | Lz4 | Lz4hc | Zstd

record EventStoreConfig =
  db_path :: string
  batch_size :: nat
  enable_compression :: bool
  compression_type :: CompressionType
  max_background_jobs :: int
  write_buffer_size :: nat
  max_write_buffer_number :: int
  target_file_size_base :: nat
  enable_wal :: bool
  sync_writes :: bool

definition config_default :: EventStoreConfig where
  "config_default =
     \<lparr>db_path = ''./data/eventstore'', batch_size = 1000, enable_compression = True,
      compression_type = Lz4, max_background_jobs = 4, write_buffer_size = 64 * 1024 * 1024,
      max_write_buffer_number = 3, target_file_size_base = 64 * 1024 * 1024,
      enable_wal = True, sync_writes = False\<rparr>"

definition config_new :: "string \<Rightarrow> EventStoreConfig" where
  "config_new path = config_default\<lparr>db_path := path\<rparr>"

definition high_throughput :: "EventStoreConfig \<Rightarrow> EventStoreConfig" where
  "high_throughput c = c\<lparr>batch_size := 5000, write_buffer_size := 128 * 1024 * 1024,
      max_write_buffer_number := 6, sync_writes := False, max_background_jobs := 8\<rparr>"

definition high_durability :: "EventStoreConfig \<Rightarrow> EventStoreConfig" where
  "high_durability c = c\<lparr>sync_writes := True, enable_wal := True, batch_size := 100\<rparr>"

definition development :: "EventStoreConfig \<Rightarrow> EventStoreConfig" where
  "development c = c\<lparr>db_path := ''./tmp/eventstore-dev'', sync_writes := False,
      enable_compression := False\<rparr>"

text \<open>RocksDB's enumeration of the same algorithms, and the \<^verbatim>\<open>From\<close> instance.\<close>

datatype DBCompressionType =
  DBNone | DBSnappy | DBZlib | DBBz2 | DBLz4 | DBLz4hc | DBZstd

fun db_compression_type :: "CompressionType \<Rightarrow> DBCompressionType" where
  "db_compression_type NoCompression = DBNone"
| "db_compression_type Snappy = DBSnappy"
| "db_compression_type Zlib = DBZlib"
| "db_compression_type Bz2 = DBBz2"
| "db_compression_type Lz4 = DBLz4"
| "db_compression_type Lz4hc = DBLz4hc"
| "db_compression_type Zstd = DBZstd"

lemma high_throughput_loses_sync: "\<not> sync_writes (high_throughput (high_durability c))"
  by (simp add: high_throughput_def)

lemma high_durability_keeps_codec:
  "enable_compression (high_durability c) = enable_compression c"
  by (simp add: high_durability_def)

end
