(* ===== verification/Serialization.thy ===== *)
theory Serialization
  imports CoreEvents StoreConfig
begin

text \<open>
  \<^verbatim>\<open>serialization.rs\<close>: the event serializer (bincode, then LZ4 when compression is on)
  and the storage keys. The crates bincode, lz4_flex and chrono are not part of the
  repository: the functions of theirs the code calls are the fields of \<open>Libs\<close>, an argument
  of every definition that uses them, and what the code relies on is the locale
  \<open>codec_libs\<close>. The last field, \<open>key_debug\<close>, is the rendering of a key inside an error
  message (\<^verbatim>\<open>from_utf8_lossy\<close>, then \<^verbatim>\<open>Debug\<close>), which needs the Unicode tables and on which
  nothing relies. The order of the keys is the byte order RocksDB iterates in.
\<close>

section \<open>The external functions\<close>

record Libs =
  timestamp_nanos_opt :: "DateTime \<Rightarrow> i64 option"
  bincode_serialize :: "EventEnvelope \<Rightarrow> string + bytes"
  bincode_deserialize :: "bytes \<Rightarrow> string + EventEnvelope"
  lz4_write_all :: "bytes \<Rightarrow> string + unit"
  lz4_finish :: "bytes \<Rightarrow> string + bytes"
  lz4_read_to_end :: "bytes \<Rightarrow> string + bytes"
  key_debug :: "bytes \<Rightarrow> string"

text \<open>Documented behaviour: chrono counts the nanoseconds since the epoch and gives
  \<open>None\<close> where they do not fit an \<open>i64\<close>; bincode and LZ4 frames decode what they encoded.\<close>

locale codec_libs =
  fixes X :: Libs
  assumes nanos_opt: "timestamp_nanos_opt X t = (if in_i64 t then Some (word_of_int t) else None)"
    and bincode_roundtrip: "bincode_serialize X e = Inr b \<Longrightarrow> bincode_deserialize X b = Inr e"
    and lz4_roundtrip: "lz4_finish X d = Inr c \<Longrightarrow> lz4_read_to_end X c = Inr d"

section \<open>Serializer\<close>

datatype SerializationError =
    SerializationFailed string
  | CompressionFailed string
  | DecompressionFailed string
  | InvalidFormatVersion u8 u8

text \<open>Declared for storage, used by no function of the crate.\<close>

record SerializedEventEnvelope =
  format_version :: u8
  compressed :: bool
  data :: bytes

record EventSerializer =
  use_compression :: bool

definition serializer_new :: "bool \<Rightarrow> EventSerializer" where
  "serializer_new b = \<lparr>use_compression = b\<rparr>"

definition serializer_from_config :: "EventStoreConfig \<Rightarrow> EventSerializer" where
  "serializer_from_config c = serializer_new (enable_compression c)"

definition compress :: "Libs \<Rightarrow> bytes \<Rightarrow> SerializationError + bytes" where
  "compress X d =
     try_bind (map_err CompressionFailed (lz4_write_all X d))
       (\<lambda>_. map_err CompressionFailed (lz4_finish X d))"

definition decompress :: "Libs \<Rightarrow> bytes \<Rightarrow> SerializationError + bytes" where
  "decompress X d = map_err DecompressionFailed (lz4_read_to_end X d)"

definition serialize :: "Libs \<Rightarrow> EventSerializer \<Rightarrow> EventEnvelope \<Rightarrow> SerializationError + bytes" where
  "serialize X s envelope =
     try_bind (map_err SerializationFailed (bincode_serialize X envelope))
       (\<lambda>envelope_bytes. if use_compression s then compress X envelope_bytes else Ok envelope_bytes)"

definition deserialize :: "Libs \<Rightarrow> EventSerializer \<Rightarrow> bytes \<Rightarrow> SerializationError + EventEnvelope" where
  "deserialize X s d =
     try_bind (if use_compression s then decompress X d else Ok d)
       (\<lambda>envelope_bytes. map_err SerializationFailed (bincode_deserialize X envelope_bytes))"

section \<open>Keys\<close>

text \<open>\<^verbatim>\<open>timestamp_nanos_opt().unwrap_or(0) as u64\<close>.\<close>

definition nanos_u64 :: "Libs \<Rightarrow> DateTime \<Rightarrow> u64" where
  "nanos_u64 X t = (case timestamp_nanos_opt X t of Some n \<Rightarrow> n | None \<Rightarrow> 0)"

definition uuid_bytes :: "uuid \<Rightarrow> bytes" where
  "uuid_bytes u = be_digits 16 (unat u)"

definition generate_event_key :: "Libs \<Rightarrow> EventEnvelope \<Rightarrow> bytes" where
  "generate_event_key X envelope =
     to_be_bytes (nanos_u64 X (timestamp envelope)) @ uuid_bytes (event_uuid (event_id envelope))"

definition generate_account_key_prefix :: "string \<Rightarrow> bytes" where
  "generate_account_key_prefix account_id = map of_char (''account:'' @ account_id)"

definition generate_time_key_prefix :: "Libs \<Rightarrow> DateTime \<Rightarrow> bytes" where
  "generate_time_key_prefix X t = to_be_bytes (nanos_u64 X t)"

section \<open>The round trip\<close>

text \<open>The contract of a codec that may refuse a value, and its one consequence.\<close>

locale codec =
  fixes enc :: "'a \<Rightarrow> 'e + 'b" and dec :: "'b \<Rightarrow> 'e + 'a"
  assumes dec_enc: "enc x = Inr b \<Longrightarrow> dec b = Inr x"
begin

lemma enc_inject: "enc x = Inr b \<Longrightarrow> enc y = Inr b \<Longrightarrow> x = y"
  by (metis dec_enc sum.inject(2))

end

text \<open>The serializer keeps the contract for either setting of its compression flag.\<close>

sublocale codec_libs \<subseteq> ser: codec "serialize X s" "deserialize X s" for s
  by unfold_locales
    (auto simp: serialize_def deserialize_def compress_def decompress_def try_bind_Ok_iff
      bincode_roundtrip split: if_splits dest!: lz4_roundtrip)

context codec_libs
begin

lemmas deserialize_serialize = ser.dec_enc
lemmas serialize_inject = ser.enc_inject

end

lemma serialize_errors:
  "serialize X s e = Inl err \<Longrightarrow> (\<exists>m. err = SerializationFailed m \<or> err = CompressionFailed m)"
  by (auto simp: serialize_def compress_def result_iffs split: if_splits)

lemma deserialize_errors:
  "deserialize X s d = Inl err \<Longrightarrow> (\<exists>m. err = SerializationFailed m \<or> err = DecompressionFailed m)"
  by (auto simp: deserialize_def decompress_def result_iffs split: if_splits)

section \<open>Facts about keys\<close>

lemma unat_uuid_bound: "unat (u :: uuid) < 256 ^ 16"
  using unsigned_less[of u, where ?'a = nat] by simp

lemma length_uuid_bytes [simp]: "length (uuid_bytes u) = 16"
  by (simp add: uuid_bytes_def)

lemma uuid_bytes_inject [simp]: "uuid_bytes u = uuid_bytes v \<longleftrightarrow> u = v"
  using be_digits_inject[OF unat_uuid_bound unat_uuid_bound, of u v]
  by (simp add: uuid_bytes_def word_unat_eq_iff)

lemma uuid_bytes_less [simp]: "uuid_bytes u < uuid_bytes v \<longleftrightarrow> u < v"
  using be_digits_less[OF unat_uuid_bound unat_uuid_bound, of u "[]" v "[]"]
  by (simp add: uuid_bytes_def word_less_nat_alt)

lemma length_event_key [simp]: "length (generate_event_key X e) = 24"
  by (simp add: generate_event_key_def)

lemma event_key_eq_iff:
  "generate_event_key X d = generate_event_key X e \<longleftrightarrow>
     nanos_u64 X (timestamp d) = nanos_u64 X (timestamp e) \<and> event_id d = event_id e"
  by (simp add: generate_event_key_def)

lemma event_key_less_iff:
  "generate_event_key X d < generate_event_key X e \<longleftrightarrow>
     nanos_u64 X (timestamp d) < nanos_u64 X (timestamp e)
     \<or> (nanos_u64 X (timestamp d) = nanos_u64 X (timestamp e)
        \<and> event_uuid (event_id d) < event_uuid (event_id e))"
  by (simp add: generate_event_key_def to_be_bytes_less)

lemma time_prefix_le_iff:
  "generate_time_key_prefix X t \<le> generate_event_key X e \<longleftrightarrow>
     nanos_u64 X t \<le> nanos_u64 X (timestamp e)"
  using to_be_bytes_less[of "nanos_u64 X (timestamp e)" "uuid_bytes (event_uuid (event_id e))"
      "nanos_u64 X t" "[]"]
  by (auto simp: generate_time_key_prefix_def generate_event_key_def not_less[symmetric])

text \<open>Instants from 1970 on that fit the key: their keys hold the nanoseconds themselves.\<close>

definition keyable :: "DateTime \<Rightarrow> bool" where
  "keyable t \<longleftrightarrow> 0 \<le> t \<and> t \<le> i64_max"

context codec_libs
begin

lemma nanos_u64_eq: "nanos_u64 X t = (if in_i64 t then word_of_int t else 0)"
  by (simp add: nanos_u64_def nanos_opt)

lemma uint_nanos_keyable: "keyable t \<Longrightarrow> uint (nanos_u64 X t) = t"
  by (simp add: nanos_u64_eq keyable_def in_i64_def i64_min_def i64_max_def
      uint_word_of_int take_bit_int_eq_self)

lemma uint_nanos_negative: "t < 0 \<Longrightarrow> in_i64 t \<Longrightarrow> uint (nanos_u64 X t) = t + 2 ^ 64"
proof -
  assume t: "t < 0" "in_i64 t"
  have "take_bit 64 t = take_bit 64 (t + 2 ^ 64)" by (simp add: take_bit_eq_mod)
  also have "\<dots> = t + 2 ^ 64"
    using t by (intro take_bit_int_eq_self) (auto simp: in_i64_def i64_min_def)
  finally show ?thesis using t by (simp add: nanos_u64_eq uint_word_of_int take_bit_eq_mod)
qed

lemma nanos_less_keyable:
  "keyable s \<Longrightarrow> keyable t \<Longrightarrow> nanos_u64 X s < nanos_u64 X t \<longleftrightarrow> s < t"
  by (simp add: word_less_def uint_nanos_keyable)

lemma nanos_le_keyable:
  "keyable s \<Longrightarrow> keyable t \<Longrightarrow> nanos_u64 X s \<le> nanos_u64 X t \<longleftrightarrow> s \<le> t"
  by (simp add: word_le_def uint_nanos_keyable)

lemma nanos_eq_keyable:
  "keyable s \<Longrightarrow> keyable t \<Longrightarrow> nanos_u64 X s = nanos_u64 X t \<longleftrightarrow> s = t"
  by (metis uint_nanos_keyable)

lemma nanos_pre_epoch:
  "s < 0 \<Longrightarrow> in_i64 s \<Longrightarrow> keyable t \<Longrightarrow> nanos_u64 X t < nanos_u64 X s"
  by (simp add: word_less_def uint_nanos_keyable uint_nanos_negative)
    (simp add: keyable_def in_i64_def i64_min_def i64_max_def)

end

section \<open>A reference instance of the external functions\<close>

text \<open>A codec over a fixed table of envelopes: an envelope is encoded as its position, one
  byte, and one that is not in the table is refused; LZ4 is a one-byte frame header. It
  serves the closed examples.\<close>

fun position :: "'a \<Rightarrow> 'a list \<Rightarrow> nat option" where
  "position x [] = None"
| "position x (y # ys) = (if x = y then Some 0 else map_option Suc (position x ys))"

lemma position_nth: "position x ys = Some n \<Longrightarrow> n < length ys \<and> ys ! n = x"
  by (induction ys arbitrary: n) (auto split: if_splits)

definition table_serialize :: "EventEnvelope list \<Rightarrow> EventEnvelope \<Rightarrow> string + bytes" where
  "table_serialize tbl e =
     (case position e tbl of
        Some n \<Rightarrow> if n < 256 then Ok [word_of_nat n] else Err ''size limit reached''
      | None \<Rightarrow> Err ''unsupported'')"

definition table_deserialize :: "EventEnvelope list \<Rightarrow> bytes \<Rightarrow> string + EventEnvelope" where
  "table_deserialize tbl d =
     (case d of
        [b] \<Rightarrow> if unat b < length tbl then Ok (tbl ! unat b) else Err ''unexpected end''
      | _ \<Rightarrow> Err ''unexpected end'')"

definition table_libs :: "EventEnvelope list \<Rightarrow> Libs" where
  "table_libs tbl =
     \<lparr>timestamp_nanos_opt = (\<lambda>t. if in_i64 t then Some (word_of_int t) else None),
      bincode_serialize = table_serialize tbl,
      bincode_deserialize = table_deserialize tbl,
      lz4_write_all = (\<lambda>_. Ok ()),
      lz4_finish = (\<lambda>d. Ok (4 # d)),
      lz4_read_to_end = (\<lambda>d. case d of
          b # c \<Rightarrow> if b = 4 then Ok c else Err ''wrong magic number''
        | [] \<Rightarrow> Ok []),
      key_debug = (\<lambda>_. ''key'')\<rparr>"

interpretation table: codec_libs "table_libs tbl" for tbl
  by unfold_locales
    (auto simp: table_libs_def table_serialize_def table_deserialize_def unat_of_nat
      dest!: position_nth split: option.splits if_splits)

lemma table_libs_ok: "codec_libs (table_libs tbl)"
  by (rule table.codec_libs_axioms)

text \<open>A small envelope with a given identifier and instant.\<close>

definition root_event :: "uuid \<Rightarrow> DateTime \<Rightarrow> EventEnvelope" where
  "root_event u t =
     event_envelope_new u t ''block'' 1
       (MerkleRootGenerated \<lparr>mr_block_height = 7, mr_root_hash = ''r'', mr_transaction_count = 3,
          mr_previous_root_hash = None, mr_generated_at = t\<rparr>)
       event_metadata_default"

lemma root_event_simps [simp]:
  "event_id (root_event u t) = EventId u"
  "timestamp (root_event u t) = t"
  "event_data (root_event u t) = MerkleRootGenerated \<lparr>mr_block_height = 7, mr_root_hash = ''r'',
     mr_transaction_count = 3, mr_previous_root_hash = None, mr_generated_at = t\<rparr>"
  by (simp_all add: root_event_def)

lemma root_event_inject [simp]: "root_event u s = root_event v t \<longleftrightarrow> u = v \<and> s = t"
  by (metis EventId.inject root_event_simps(1,2))

lemmas table_simps =
  table_libs_def table_serialize_def table_deserialize_def serialize_def deserialize_def
  compress_def decompress_def serializer_new_def

section \<open>Properties\<close>

text \<open>C5: Whatever the serializer wrote, with or without compression, the same serializer reads
  back as the same envelope.\<close>

theorem serializer_roundtrip:
  assumes "codec_libs X" and "serialize X s e = Ok b"
  shows "deserialize X s b = Ok e"
  using assms by (rule codec_libs.deserialize_serialize)

theorem serializer_roundtrip_witness:
  "\<exists>b. serialize (table_libs [root_event 1 5]) (serializer_new True) (root_event 1 5) = Ok b
     \<and> deserialize (table_libs [root_event 1 5]) (serializer_new True) b = Ok (root_event 1 5)"
proof -
  have "serialize (table_libs [root_event 1 5]) (serializer_new True) (root_event 1 5) = Ok [4, 0]"
    by (simp add: table_simps)
  with serializer_roundtrip[OF table_libs_ok this] show ?thesis by blast
qed

text \<open>Reading fails in exactly two ways, and neither is a format version: a broken frame is a
  \<open>DecompressionFailed\<close>, bytes bincode cannot decode are reported as \<open>SerializationFailed\<close>.
  The declared \<open>InvalidFormatVersion\<close> is never produced, on writing or on reading.\<close>

theorem serializer_error_cases:
  "(deserialize X s d = Err err \<longleftrightarrow>
      (\<exists>m. use_compression s \<and> lz4_read_to_end X d = Err m \<and> err = DecompressionFailed m)
      \<or> (\<exists>d' m. (if use_compression s then lz4_read_to_end X d = Ok d' else d' = d)
           \<and> bincode_deserialize X d' = Err m \<and> err = SerializationFailed m))
   \<and> deserialize X s d \<noteq> Err (InvalidFormatVersion v w)
   \<and> serialize X s e \<noteq> Err (InvalidFormatVersion v w)"
  by (auto simp: deserialize_def decompress_def serialize_def compress_def result_iffs
      split: if_splits)

text \<open>An event key is 24 bytes, and two events share it just when they have the same
  identifier and the same timestamp word: the identifier alone tells keys apart.\<close>

theorem event_key_identity:
  "length (generate_event_key X d) = 24
   \<and> (generate_event_key X d = generate_event_key X e \<longleftrightarrow>
        nanos_u64 X (timestamp d) = nanos_u64 X (timestamp e) \<and> event_id d = event_id e)"
  by (simp add: event_key_eq_iff)

text \<open>C26: From 1970 on (and while the nanoseconds fit), keys are in the order of time, and in the
  order of the identifiers at one instant; and the key of an event lies at or after the time
  prefix of an instant just when the event does not precede that instant.\<close>

theorem event_key_order:
  assumes "codec_libs X" and "keyable (timestamp d)" and "keyable (timestamp e)" and "keyable t"
  shows "(generate_event_key X d < generate_event_key X e \<longleftrightarrow>
            timestamp d < timestamp e
            \<or> timestamp d = timestamp e \<and> event_uuid (event_id d) < event_uuid (event_id e))
         \<and> (generate_time_key_prefix X t \<le> generate_event_key X e \<longleftrightarrow> t \<le> timestamp e)"
  using assms
  by (simp add: event_key_less_iff time_prefix_le_iff codec_libs.nanos_less_keyable
      codec_libs.nanos_eq_keyable codec_libs.nanos_le_keyable)

theorem event_key_order_witness:
  "generate_event_key (table_libs []) (root_event 9 5) < generate_event_key (table_libs []) (root_event 2 6)
   \<and> generate_time_key_prefix (table_libs []) 6 \<le> generate_event_key (table_libs []) (root_event 2 6)"
  using event_key_order[OF table_libs_ok, of "root_event 9 5" "root_event 2 6" 6 "[]"]
  by (simp add: keyable_def i64_max_def)

text \<open>Before 1970 the order is lost: the key of an event dated before the epoch comes after
  the key of every event dated from the epoch on, and an instant whose nanoseconds do not fit
  is keyed as the epoch itself.\<close>

theorem pre_epoch_keys_come_last:
  assumes "codec_libs X" and "timestamp d < 0" and "in_i64 (timestamp d)" and "keyable (timestamp e)"
  shows "generate_event_key X e < generate_event_key X d
         \<and> (\<not> in_i64 (timestamp f) \<longrightarrow>
              generate_event_key X f = to_be_bytes 0 @ uuid_bytes (event_uuid (event_id f)))"
proof (intro conjI impI)
  show "generate_event_key X e < generate_event_key X d"
    using assms by (simp add: event_key_less_iff codec_libs.nanos_pre_epoch)
next
  assume "\<not> in_i64 (timestamp f)"
  then show "generate_event_key X f = to_be_bytes 0 @ uuid_bytes (event_uuid (event_id f))"
    using assms(1) by (simp add: generate_event_key_def codec_libs.nanos_u64_eq)
qed

theorem pre_epoch_keys_come_last_witness:
  "timestamp (root_event 1 (-1)) < timestamp (root_event 1 0)
   \<and> generate_event_key (table_libs []) (root_event 1 0)
       < generate_event_key (table_libs []) (root_event 1 (-1))"
  using pre_epoch_keys_come_last[OF table_libs_ok, of "root_event 1 (-1)" "root_event 1 0" "[]"]
  by (simp add: keyable_def in_i64_def i64_min_def i64_max_def)

end
