(* ===== verification/RocksIface.thy ===== *)
theory RocksIface
  imports LedgerPrelude
begin

text \<open>
  RocksDB as the event store uses it. The crate is not part of the repository: its calls
  are the fields of \<open>RocksDB\<close>, over an unknown type of database states, and the documented
  behaviour the store relies on is the locale \<open>rocksdb\<close>: a database holds a finite map whose
  entries are iterated in key order, a batch is applied as a whole or not at all, and an
  iterator may stop early with an error. An in-memory database closes the file: a log of
  writes that is sorted when it is read.
\<close>

type_synonym key = bytes
type_synonym val = bytes

record WriteOptions =
  wo_sync :: bool
  wo_disable_wal :: bool

datatype Direction = Forward | Reverse
datatype IteratorMode = Start | End | From key Direction

record 'db RocksDB =
  db_get :: "'db \<Rightarrow> key \<Rightarrow> string + val option"
  db_put_opt :: "'db \<Rightarrow> key \<Rightarrow> val \<Rightarrow> WriteOptions \<Rightarrow> (string + unit) \<times> 'db"
  db_write_opt :: "'db \<Rightarrow> (key \<times> val) list \<Rightarrow> WriteOptions \<Rightarrow> (string + unit) \<times> 'db"
  db_iterator :: "'db \<Rightarrow> IteratorMode \<Rightarrow> (string + key \<times> val) list"
  db_compact_range :: "'db \<Rightarrow> 'db"

text \<open>The puts of a batch take effect in their order.\<close>

fun batch_apply :: "('k \<rightharpoonup> 'v) \<Rightarrow> ('k \<times> 'v) list \<Rightarrow> ('k \<rightharpoonup> 'v)" where
  "batch_apply m [] = m"
| "batch_apply m ((k, v) # b) = batch_apply (m(k \<mapsto> v)) b"

lemma batch_apply_map_of: "batch_apply m b = m ++ map_of (rev b)"
proof (induction b arbitrary: m)
  case (Cons a b)
  obtain k v where a: "a = (k, v)" by (cases a)
  have "m(k \<mapsto> v) ++ map_of (rev b) = m ++ map_of (rev (a # b))"
    by (auto simp: a map_add_def fun_eq_iff split: option.splits)
  then show ?case by (simp only: a batch_apply.simps Cons.IH)
qed simp

text \<open>What an iterator of a given mode walks over.\<close>

fun iter_view :: "IteratorMode \<Rightarrow> (key \<times> val) list \<Rightarrow> (key \<times> val) list" where
  "iter_view Start xs = xs"
| "iter_view End xs = rev xs"
| "iter_view (From k Forward) xs = filter (\<lambda>(k', v). k \<le> k') xs"
| "iter_view (From k Reverse) xs = rev (filter (\<lambda>(k', v). k' \<le> k) xs)"

text \<open>An iterator yields its entries, or some of them and then an error.\<close>

fun iter_yields :: "(string + 'a) list \<Rightarrow> 'a list \<Rightarrow> bool" where
  "iter_yields [] xs \<longleftrightarrow> xs = []"
| "iter_yields (Inl e # items) xs \<longleftrightarrow> items = []"
| "iter_yields (Inr x # items) xs \<longleftrightarrow> (case xs of [] \<Rightarrow> False | y # ys \<Rightarrow> x = y \<and> iter_yields items ys)"

locale rocksdb =
  fixes R :: "'db RocksDB" and contents :: "'db \<Rightarrow> (key \<times> val) list"
  assumes contents_sorted: "key_sorted (contents d)"
    and get_Ok: "db_get R d k = Inr r \<Longrightarrow> r = map_of (contents d) k"
    and put_Ok: "db_put_opt R d k v wo = (Inr u, d') \<Longrightarrow>
      map_of (contents d') = (map_of (contents d))(k \<mapsto> v)"
    and put_Err: "db_put_opt R d k v wo = (Inl m, d') \<Longrightarrow>
      map_of (contents d') = map_of (contents d)
      \<or> map_of (contents d') = (map_of (contents d))(k \<mapsto> v)"
    and write_Ok: "db_write_opt R d b wo = (Inr u, d') \<Longrightarrow>
      map_of (contents d') = batch_apply (map_of (contents d)) b"
    and write_Err: "db_write_opt R d b wo = (Inl m, d') \<Longrightarrow>
      map_of (contents d') = map_of (contents d)
      \<or> map_of (contents d') = batch_apply (map_of (contents d)) b"
    and iterator_yields: "iter_yields (db_iterator R d mode) (iter_view mode (contents d))"
    and compact_keeps: "map_of (contents (db_compact_range R d)) = map_of (contents d)"

lemma iter_yields_Ok: "iter_yields items xs \<Longrightarrow> Inl ` UNIV \<inter> set items = {} \<Longrightarrow> items = map Inr xs"
  by (induction items xs rule: iter_yields.induct) (auto split: list.splits)

lemma iter_yields_map: "iter_yields (map Inr xs) xs"
  by (induction xs) auto

lemma iter_view_set: "set (iter_view mode xs) \<subseteq> set xs"
  by (induction mode xs rule: iter_view.induct) auto

text \<open>An iterator that meets no error.\<close>

definition iterates :: "'db RocksDB \<Rightarrow> 'db \<Rightarrow> IteratorMode \<Rightarrow> bool" where
  "iterates R d mode \<longleftrightarrow> (\<forall>item\<in>set (db_iterator R d mode). \<not> isl item)"

context rocksdb
begin

lemma iterator_complete: "iterates R d mode \<Longrightarrow>
    db_iterator R d mode = map Inr (iter_view mode (contents d))"
  using iterator_yields[of d mode]
  by (intro iter_yields_Ok) (auto simp: iterates_def disjoint_iff)

lemma contents_determined:
  "map_of (contents d) = map_of (contents d') \<Longrightarrow> contents d = contents d'"
  using contents_sorted key_sorted_unique by blast

end

section \<open>An in-memory database\<close>

text \<open>The state is the log of writes, the latest first; a key's value is its first entry.\<close>

type_synonym ram = "(key \<times> val) list"

fun ram_contents :: "ram \<Rightarrow> (key \<times> val) list" where
  "ram_contents [] = []"
| "ram_contents ((k, v) # log) = insert_sorted k v (ram_contents log)"

definition ram_db :: "ram RocksDB" where
  "ram_db =
     \<lparr>db_get = (\<lambda>d k. Ok (map_of d k)),
      db_put_opt = (\<lambda>d k v wo. (Ok (), (k, v) # d)),
      db_write_opt = (\<lambda>d b wo. (Ok (), rev b @ d)),
      db_iterator = (\<lambda>d mode. map Ok (iter_view mode (ram_contents d))),
      db_compact_range = ram_contents\<rparr>"

lemma map_of_ram_contents [simp]: "map_of (ram_contents d) = map_of d"
  by (induction d rule: ram_contents.induct) auto

lemma key_sorted_ram_contents: "key_sorted (ram_contents d)"
  by (induction d rule: ram_contents.induct) auto

interpretation ram: rocksdb ram_db ram_contents
  by unfold_locales
    (auto simp: ram_db_def key_sorted_ram_contents batch_apply_map_of iter_yields_map)

end
