(* ===== verification/EventStore.thy ===== *)
theory EventStore
  imports Serialization RocksIface
begin

text \<open>
  The write half of \<^verbatim>\<open>store.rs\<close>: the store's state, opening it, the three append
  operations and compaction. The write lock makes every operation atomic, so an operation
  is a function from the store to its result and the next store. A store is looked at
  through the map from keys to the envelopes it holds (\<open>event_view\<close>); the contract of an
  append operation on that map is the locale \<open>append_log\<close>, and both batch operations are
  shown to keep it.
\<close>

section \<open>State and errors\<close>

datatype EventStoreError =
    DatabaseError string
  | StoreSerializationError SerializationError
  | EventNotFound string
  | InvalidQuery string
  | ConcurrencyError string

record 'db EventStore =
  es_db :: 'db
  es_serializer :: EventSerializer
  es_config :: EventStoreConfig

record AppendResult =
  events_written :: nat
  bytes_written :: nat
  write_duration :: nat

text \<open>The \<^verbatim>\<open>Display\<close> texts of the two error types.\<close>

fun display_serialization_error :: "SerializationError \<Rightarrow> string" where
  "display_serialization_error (SerializationFailed m) = ''Serialization failed: '' @ m"
| "display_serialization_error (CompressionFailed m) = ''Compression failed: '' @ m"
| "display_serialization_error (DecompressionFailed m) = ''Decompression failed: '' @ m"
| "display_serialization_error (InvalidFormatVersion expected actual) =
     ''Invalid format version: expected '' @ show_nat (unat expected) @ '', got '' @ show_nat (unat actual)"

fun display_store_error :: "EventStoreError \<Rightarrow> string" where
  "display_store_error (DatabaseError m) = ''Database error: '' @ m"
| "display_store_error (StoreSerializationError e) =
     ''Serialization error: '' @ display_serialization_error e"
| "display_store_error (EventNotFound m) = ''Event not found: '' @ m"
| "display_store_error (InvalidQuery m) = ''Invalid query parameters: '' @ m"
| "display_store_error (ConcurrencyError m) = ''Concurrency error: '' @ m"

definition event_exists_error :: "Libs \<Rightarrow> key \<Rightarrow> EventStoreError" where
  "event_exists_error X k =
     ConcurrencyError (''Event with key '' @ key_debug X k @
       '' already exists. Append-only store prevents overwrites.'')"

section \<open>Opening a store\<close>

record Options =
  o_create_if_missing :: bool
  o_create_missing_column_families :: bool
  o_max_write_buffer_number :: int
  o_write_buffer_size :: nat
  o_target_file_size_base :: nat
  o_max_background_jobs :: int
  o_compression_type :: DBCompressionType
  o_use_fsync :: bool
  o_bloom_bits_per_key :: nat

definition store_options :: "EventStoreConfig \<Rightarrow> Options" where
  "store_options c =
     \<lparr>o_create_if_missing = True, o_create_missing_column_families = True,
      o_max_write_buffer_number = max_write_buffer_number c,
      o_write_buffer_size = write_buffer_size c,
      o_target_file_size_base = target_file_size_base c,
      o_max_background_jobs = max_background_jobs c,
      o_compression_type = db_compression_type (compression_type c),
      o_use_fsync = sync_writes c, o_bloom_bits_per_key = 10\<rparr>"

definition event_store_new ::
  "(Options \<Rightarrow> string \<Rightarrow> string + 'db) \<Rightarrow> string \<Rightarrow> EventStoreConfig \<Rightarrow> EventStoreError + 'db EventStore"
where
  "event_store_new db_open path c =
     try_bind (map_err DatabaseError (db_open (store_options c) path))
       (\<lambda>d. Ok \<lparr>es_db = d, es_serializer = serializer_new (enable_compression c), es_config = c\<rparr>)"

section \<open>Append operations\<close>

definition append_event ::
  "'db RocksDB \<Rightarrow> Libs \<Rightarrow> 'db EventStore \<Rightarrow> EventEnvelope \<Rightarrow> (EventStoreError + unit) \<times> 'db EventStore"
where
  "append_event R X s envelope =
     (let k = generate_event_key X envelope in
      case db_get R (es_db s) k of
        Inl m \<Rightarrow> (Err (DatabaseError m), s)
      | Inr (Some _) \<Rightarrow> (Err (event_exists_error X k), s)
      | Inr None \<Rightarrow>
          (case serialize X (es_serializer s) envelope of
             Inl err \<Rightarrow> (Err (StoreSerializationError err), s)
           | Inr v \<Rightarrow>
               (case db_put_opt R (es_db s) k v
                       \<lparr>wo_sync = sync_writes (es_config s), wo_disable_wal = False\<rparr> of
                  (Inl m, d) \<Rightarrow> (Err (DatabaseError m), s\<lparr>es_db := d\<rparr>)
                | (Inr _, d) \<Rightarrow> (Ok (), s\<lparr>es_db := d\<rparr>))))"

text \<open>The body of \<^verbatim>\<open>append_events\<close>'s loop checks and serializes one event after the other.\<close>

fun append_loop ::
  "'db RocksDB \<Rightarrow> Libs \<Rightarrow> 'db EventStore \<Rightarrow> EventEnvelope list \<Rightarrow> (key \<times> val) list
     \<Rightarrow> EventStoreError + (key \<times> val) list"
where
  "append_loop R X s [] batch = Ok batch"
| "append_loop R X s (envelope # envelopes) batch =
     (let k = generate_event_key X envelope in
      case db_get R (es_db s) k of
        Inl m \<Rightarrow> Err (DatabaseError m)
      | Inr (Some _) \<Rightarrow> Err (event_exists_error X k)
      | Inr None \<Rightarrow>
          (case serialize X (es_serializer s) envelope of
             Inl err \<Rightarrow> Err (StoreSerializationError err)
           | Inr v \<Rightarrow> append_loop R X s envelopes (batch @ [(k, v)])))"

text \<open>The final \<^verbatim>\<open>write_opt\<close> of a batch.\<close>

definition write_batch ::
  "'db RocksDB \<Rightarrow> 'db EventStore \<Rightarrow> (key \<times> val) list \<Rightarrow> bool \<Rightarrow> 'r
     \<Rightarrow> (EventStoreError + 'r) \<times> 'db EventStore"
where
  "write_batch R s batch sync r =
     (case db_write_opt R (es_db s) batch \<lparr>wo_sync = sync, wo_disable_wal = False\<rparr> of
        (Inl m, d) \<Rightarrow> (Err (DatabaseError m), s\<lparr>es_db := d\<rparr>)
      | (Inr _, d) \<Rightarrow> (Ok r, s\<lparr>es_db := d\<rparr>))"

definition append_events ::
  "'db RocksDB \<Rightarrow> Libs \<Rightarrow> 'db EventStore \<Rightarrow> EventEnvelope list
     \<Rightarrow> (EventStoreError + unit) \<times> 'db EventStore"
where
  "append_events R X s envelopes =
     (if envelopes = [] then (Ok (), s)
      else case append_loop R X s envelopes [] of
        Inl err \<Rightarrow> (Err err, s)
      | Inr batch \<Rightarrow> write_batch R s batch (sync_writes (es_config s)) ())"

text \<open>The optimized version checks every key first and serializes in a second pass, counting
  the bytes; a batch of more than 100 events is written without sync.\<close>

fun validate_loop ::
  "'db RocksDB \<Rightarrow> Libs \<Rightarrow> 'db EventStore \<Rightarrow> EventEnvelope list \<Rightarrow> EventStoreError + unit"
where
  "validate_loop R X s [] = Ok ()"
| "validate_loop R X s (envelope # envelopes) =
     (let k = generate_event_key X envelope in
      case db_get R (es_db s) k of
        Inl m \<Rightarrow> Err (DatabaseError m)
      | Inr (Some _) \<Rightarrow> Err (event_exists_error X k)
      | Inr None \<Rightarrow> validate_loop R X s envelopes)"

fun build_loop ::
  "Libs \<Rightarrow> EventSerializer \<Rightarrow> EventEnvelope list \<Rightarrow> (key \<times> val) list \<Rightarrow> nat
     \<Rightarrow> EventStoreError + (key \<times> val) list \<times> nat"
where
  "build_loop X ser [] batch total_bytes = Ok (batch, total_bytes)"
| "build_loop X ser (envelope # envelopes) batch total_bytes =
     (let k = generate_event_key X envelope in
      case serialize X ser envelope of
        Inl err \<Rightarrow> Err (StoreSerializationError err)
      | Inr v \<Rightarrow> build_loop X ser envelopes (batch @ [(k, v)]) (total_bytes + (length k + length v)))"

text \<open>\<open>elapsed\<close> is the reading of the stopwatch, in nanoseconds.\<close>

definition append_events_optimized ::
  "'db RocksDB \<Rightarrow> Libs \<Rightarrow> nat \<Rightarrow> 'db EventStore \<Rightarrow> EventEnvelope list
     \<Rightarrow> (EventStoreError + AppendResult) \<times> 'db EventStore"
where
  "append_events_optimized R X elapsed s envelopes =
     (if envelopes = [] then (Ok \<lparr>events_written = 0, bytes_written = 0, write_duration = 0\<rparr>, s)
      else case validate_loop R X s envelopes of
        Inl err \<Rightarrow> (Err err, s)
      | Inr _ \<Rightarrow>
          (case build_loop X (es_serializer s) envelopes [] 0 of
             Inl err \<Rightarrow> (Err err, s)
           | Inr (batch, total_bytes) \<Rightarrow>
               write_batch R s batch
                 (if length envelopes > 100 then False else sync_writes (es_config s))
                 \<lparr>events_written = length envelopes, bytes_written = total_bytes,
                  write_duration = elapsed\<rparr>))"

definition compact ::
  "'db RocksDB \<Rightarrow> 'db EventStore \<Rightarrow> (EventStoreError + unit) \<times> 'db EventStore" where
  "compact R s = (Ok (), s\<lparr>es_db := db_compact_range R (es_db s)\<rparr>)"

section \<open>The abstract store\<close>

text \<open>The envelope stored under a key, and the invariant: every value decodes to an envelope
  whose key is the key it is stored under.\<close>

definition event_view ::
  "Libs \<Rightarrow> ('db \<Rightarrow> (key \<times> val) list) \<Rightarrow> 'db EventStore \<Rightarrow> key \<rightharpoonup> EventEnvelope" where
  "event_view X contents s k =
     (case map_of (contents (es_db s)) k of
        None \<Rightarrow> None
      | Some v \<Rightarrow> (case deserialize X (es_serializer s) v of Inl _ \<Rightarrow> None | Inr e \<Rightarrow> Some e))"

definition store_wf :: "Libs \<Rightarrow> ('db \<Rightarrow> (key \<times> val) list) \<Rightarrow> 'db EventStore \<Rightarrow> bool" where
  "store_wf X contents s \<longleftrightarrow>
     (\<forall>(k, v)\<in>set (contents (es_db s)).
        case deserialize X (es_serializer s) v of
          Inl _ \<Rightarrow> False
        | Inr e \<Rightarrow> generate_event_key X e = k)"

text \<open>What a list of events adds to the view: a later event with the key of an earlier one wins.\<close>

definition key_entries :: "('e \<Rightarrow> 'k) \<Rightarrow> 'e list \<Rightarrow> 'k \<rightharpoonup> 'e" where
  "key_entries key es = map_of (rev (map (\<lambda>e. (key e, e)) es))"

section \<open>The contract of an append operation\<close>

locale append_log =
  fixes append :: "'e list \<Rightarrow> 's \<Rightarrow> ('err + 'r) \<times> 's"
    and view :: "'s \<Rightarrow> 'k \<rightharpoonup> 'e"
    and key :: "'e \<Rightarrow> 'k"
    and inv :: "'s \<Rightarrow> bool"
  assumes append_inv: "inv s \<Longrightarrow> append es s = (r, s') \<Longrightarrow> inv s'"
    and append_Ok: "inv s \<Longrightarrow> append es s = (Inr x, s') \<Longrightarrow>
      (\<forall>e\<in>set es. view s (key e) = None) \<and> view s' = view s ++ key_entries key es"
    and append_Err: "inv s \<Longrightarrow> append es s = (Inl err, s') \<Longrightarrow>
      view s' = view s
      \<or> (\<forall>e\<in>set es. view s (key e) = None) \<and> view s' = view s ++ key_entries key es"

lemma key_entries_None: "key_entries key es k = None \<longleftrightarrow> k \<notin> key ` set es"
  by (auto simp: key_entries_def map_of_eq_None_iff image_image)

lemma dom_key_entries [simp]: "dom (key_entries key es) = key ` set es"
  by (rule set_eqI) (simp add: domIff key_entries_None)

lemma key_entries_Some: "key_entries key es k = Some e \<Longrightarrow> e \<in> set es \<and> key e = k"
  by (auto simp: key_entries_def dest!: map_of_SomeD)

lemma key_entries_distinct:
  "distinct (map key es) \<Longrightarrow> e \<in> set es \<Longrightarrow> key_entries key es (key e) = Some e"
  by (simp add: key_entries_def rev_map[symmetric] comp_def map_of_eq_Some_iff)

lemma fresh_entries_map_le:
  "\<forall>e\<in>set es. m (key e) = None \<Longrightarrow> m \<subseteq>\<^sub>m m ++ key_entries key es"
  by (auto simp: map_le_def map_add_def split: option.splits dest!: key_entries_Some)

text \<open>A client that appends batch after batch, whatever each call answers.\<close>

fun append_all :: "('e list \<Rightarrow> 's \<Rightarrow> ('err + 'r) \<times> 's) \<Rightarrow> 'e list list \<Rightarrow> 's \<Rightarrow> 's" where
  "append_all app [] s = s"
| "append_all app (es # ess) s = append_all app ess (snd (app es s))"

context append_log
begin

text \<open>Whatever it answers, a call leaves the view alone or adds its whole batch to fresh keys.\<close>

lemma append_outcome:
  assumes "inv s" and "append es s = (r, s')"
  shows "view s' = view s
    \<or> (\<forall>e\<in>set es. view s (key e) = None) \<and> view s' = view s ++ key_entries key es"
  using assms append_Ok append_Err by (cases r) blast+

text \<open>No call changes or removes an event that is stored.\<close>

lemma append_only: "inv s \<Longrightarrow> append es s = (r, s') \<Longrightarrow> view s \<subseteq>\<^sub>m view s'"
  using append_outcome fresh_entries_map_le map_le_refl by metis

text \<open>No call invents an event: what is new was in the batch.\<close>

lemma append_origin:
  assumes "inv s" and "append es s = (r, s')" and "view s' k = Some e"
  shows "view s k = Some e \<or> e \<in> set es \<and> key e = k"
  using append_outcome[OF assms(1,2)] assms(3) key_entries_Some[of key es k e]
  by (auto simp: map_add_Some_iff)

lemma append_stores:
  "inv s \<Longrightarrow> append es s = (Inr x, s') \<Longrightarrow> distinct (map key es) \<Longrightarrow> e \<in> set es \<Longrightarrow>
     view s' (key e) = Some e"
  by (drule (1) append_Ok) (auto simp: key_entries_distinct)

lemma append_all_inv: "inv s \<Longrightarrow> inv (append_all append ess s)"
proof (induction ess arbitrary: s)
  case (Cons es ess)
  then show ?case using append_inv[of s es "fst (append es s)" "snd (append es s)"] by simp
qed simp

lemma append_all_only: "inv s \<Longrightarrow> view s \<subseteq>\<^sub>m view (append_all append ess s)"
proof (induction ess arbitrary: s)
  case (Cons es ess)
  obtain r s' where a: "append es s = (r, s')" by (cases "append es s")
  have "inv s'" using Cons.prems a by (rule append_inv)
  then have "view s' \<subseteq>\<^sub>m view (append_all append ess s')" by (rule Cons.IH)
  with append_only[OF Cons.prems a] show ?case using a by (auto intro: map_le_trans)
qed simp

end

end
