(* ===== verification/StoreAppend.thy ===== *)
theory StoreAppend
  imports EventStore
begin

text \<open>
  Correctness of the append operations of the event store, over any database that behaves
  as documented and any codec that decodes what it encoded (the locale \<open>event_store_env\<close>):
  they keep the store well formed, add exactly the batch under fresh keys, are atomic, and
  never change or remove a stored event.
\<close>

section \<open>What the loops collect\<close>

definition encoded :: "Libs \<Rightarrow> EventSerializer \<Rightarrow> EventEnvelope list \<Rightarrow> (key \<times> val) list \<Rightarrow> bool" where
  "encoded X ser es bs \<longleftrightarrow>
     list_all2 (\<lambda>e (k, v). k = generate_event_key X e \<and> serialize X ser e = Inr v) es bs"

definition all_absent :: "'db RocksDB \<Rightarrow> Libs \<Rightarrow> 'db EventStore \<Rightarrow> EventEnvelope list \<Rightarrow> bool" where
  "all_absent R X s es \<longleftrightarrow> (\<forall>e\<in>set es. db_get R (es_db s) (generate_event_key X e) = Inr None)"

lemma encoded_Nil [simp]: "encoded X ser [] bs \<longleftrightarrow> bs = []"
  by (simp add: encoded_def)

lemma encoded_Cons [simp]:
  "encoded X ser (e # es) bs \<longleftrightarrow>
     (\<exists>v bs'. bs = (generate_event_key X e, v) # bs' \<and> serialize X ser e = Inr v
        \<and> encoded X ser es bs')"
  by (auto simp: encoded_def list_all2_Cons1)

lemma all_absent_simps [simp]:
  "all_absent R X s []"
  "all_absent R X s (e # es) \<longleftrightarrow>
     db_get R (es_db s) (generate_event_key X e) = Inr None \<and> all_absent R X s es"
  by (auto simp: all_absent_def)

lemma append_loop_Ok_iff:
  "append_loop R X s es b = Inr batch \<longleftrightarrow>
     (\<exists>bs. batch = b @ bs \<and> encoded X (es_serializer s) es bs) \<and> all_absent R X s es"
  by (induction es arbitrary: b) (auto simp: Let_def split: sum.splits option.splits)

lemma validate_loop_Ok_iff: "validate_loop R X s es = Inr u \<longleftrightarrow> all_absent R X s es"
  by (induction es) (auto simp: Let_def split: sum.splits option.splits)

lemma build_loop_Ok_iff:
  "build_loop X ser es b n = Inr (batch, m) \<longleftrightarrow>
     (\<exists>bs. batch = b @ bs \<and> encoded X ser es bs
        \<and> m = n + sum_list (map (\<lambda>(k, v). length k + length v) bs))"
  by (induction es arbitrary: b n) (auto simp: Let_def split: sum.splits)

lemma encoded_unique: "encoded X ser es bs \<Longrightarrow> encoded X ser es cs \<Longrightarrow> cs = bs"
  by (induction es arbitrary: bs cs) auto

text \<open>The two passes of the optimized version, together, are the loop of the plain one.\<close>

lemma append_loop_encoded:
  "append_loop R X s es [] = Inr bs \<longleftrightarrow> encoded X (es_serializer s) es bs \<and> all_absent R X s es"
  by (simp add: append_loop_Ok_iff)

lemma build_loop_encoded:
  "build_loop X ser es [] 0 = Inr (bs, m) \<longleftrightarrow>
     encoded X ser es bs \<and> m = sum_list (map (\<lambda>(k, v). length k + length v) bs)"
  by (simp add: build_loop_Ok_iff)

text \<open>The sync flag the optimized version uses, and the counts it reports.\<close>

definition optimized_sync :: "'db EventStore \<Rightarrow> EventEnvelope list \<Rightarrow> bool" where
  "optimized_sync s es \<longleftrightarrow> (if length es > 100 then False else sync_writes (es_config s))"

definition batch_result :: "EventEnvelope list \<Rightarrow> (key \<times> val) list \<Rightarrow> nat \<Rightarrow> AppendResult" where
  "batch_result es bs t =
     \<lparr>events_written = length es,
      bytes_written = sum_list (map (\<lambda>(k, v). length k + length v) bs), write_duration = t\<rparr>"

lemma optimized_eq:
  assumes "es \<noteq> []" and "encoded X (es_serializer s) es bs" and "all_absent R X s es"
  shows "append_events_optimized R X t s es =
     write_batch R s bs (optimized_sync s es) (batch_result es bs t)"
proof -
  have "validate_loop R X s es = Inr ()" using assms(3) by (simp add: validate_loop_Ok_iff)
  moreover have "build_loop X (es_serializer s) es [] 0 =
      Inr (bs, sum_list (map (\<lambda>(k, v). length k + length v) bs))"
    using assms(2) by (simp add: build_loop_encoded)
  ultimately show ?thesis
    using assms(1) by (simp add: append_events_optimized_def optimized_sync_def batch_result_def)
qed

lemma optimized_fails:
  assumes "es \<noteq> []" and "\<And>bs. \<not> (encoded X (es_serializer s) es bs \<and> all_absent R X s es)"
  shows "\<exists>err. append_events_optimized R X t s es = (Inl err, s)"
proof (cases "validate_loop R X s es")
  case (Inr u)
  then have "all_absent R X s es" by (simp add: validate_loop_Ok_iff)
  with assms(2) have "build_loop X (es_serializer s) es [] 0 \<noteq> Inr p" for p
    by (cases p) (simp add: build_loop_encoded)
  with Inr assms(1) show ?thesis
    by (cases "build_loop X (es_serializer s) es [] 0") (auto simp: append_events_optimized_def)
qed (use assms(1) in \<open>simp add: append_events_optimized_def\<close>)

lemma append_events_fails:
  assumes "es \<noteq> []" and "\<And>bs. \<not> (encoded X (es_serializer s) es bs \<and> all_absent R X s es)"
  shows "\<exists>err. append_events R X s es = (Inl err, s)"
proof (cases "append_loop R X s es []")
  case (Inr bs)
  with assms(2)[of bs] show ?thesis by (simp add: append_loop_encoded)
qed (use assms(1) in \<open>simp add: append_events_def\<close>)

lemma append_events_eq:
  assumes "es \<noteq> []" and "encoded X (es_serializer s) es bs" and "all_absent R X s es"
  shows "append_events R X s es = write_batch R s bs (sync_writes (es_config s)) ()"
proof -
  have "append_loop R X s es [] = Inr bs" using assms(2,3) by (simp add: append_loop_encoded)
  with assms(1) show ?thesis by (simp add: append_events_def)
qed

lemma write_batch_fields:
  "write_batch R s b sync r = (x, s') \<Longrightarrow>
     es_serializer s' = es_serializer s \<and> es_config s' = es_config s"
  by (auto simp: write_batch_def split: prod.splits sum.splits)

section \<open>The view after a write\<close>

locale event_store_env = rocksdb R contents + codec_libs X
  for R :: "'db RocksDB" and contents :: "'db \<Rightarrow> (key \<times> val) list" and X :: Libs

definition decoded :: "Libs \<Rightarrow> EventSerializer \<Rightarrow> val \<Rightarrow> EventEnvelope option" where
  "decoded X ser v = (case deserialize X ser v of Inl _ \<Rightarrow> None | Inr e \<Rightarrow> Some e)"

lemma event_view_decoded:
  "event_view X contents s k = Option.bind (map_of (contents (es_db s)) k) (decoded X (es_serializer s))"
  by (simp add: event_view_def decoded_def split: option.splits)

lemma deserialize_decoded: "deserialize X ser v = Inr e \<longleftrightarrow> decoded X ser v = Some e"
  by (simp add: decoded_def split: sum.splits)

context event_store_env
begin

lemma map_of_contents_iff: "map_of (contents d) k = Some v \<longleftrightarrow> (k, v) \<in> set (contents d)"
  by (rule map_of_eq_Some_iff) (rule key_sorted_distinct, rule contents_sorted)

lemma store_wf_iff:
  "store_wf X contents s \<longleftrightarrow>
     (\<forall>k v. map_of (contents (es_db s)) k = Some v \<longrightarrow>
        (\<exists>e. decoded X (es_serializer s) v = Some e \<and> generate_event_key X e = k))"
  by (fastforce simp: store_wf_def map_of_contents_iff decoded_def split: sum.splits)

lemma view_None_iff:
  "store_wf X contents s \<Longrightarrow>
     event_view X contents s k = None \<longleftrightarrow> map_of (contents (es_db s)) k = None"
  by (cases "map_of (contents (es_db s)) k") (auto simp: event_view_decoded store_wf_iff)

lemma view_key: "store_wf X contents s \<Longrightarrow> event_view X contents s k = Some e \<Longrightarrow>
    generate_event_key X e = k"
  by (force simp: event_view_decoded store_wf_iff bind_eq_Some_conv)

lemma finite_dom_view: "finite (dom (event_view X contents s))"
  by (rule finite_subset[OF _ finite_dom_map_of[of "contents (es_db s)"]])
    (auto simp: event_view_decoded bind_eq_Some_conv)

lemma encoded_entries:
  "encoded X ser es bs \<Longrightarrow>
     (case map_of (rev bs) k of None \<Rightarrow> key_entries (generate_event_key X) es k = None
      | Some v \<Rightarrow> key_entries (generate_event_key X) es k = decoded X ser v
          \<and> decoded X ser v \<noteq> None)"
proof (induction es arbitrary: bs rule: rev_induct)
  case Nil
  then show ?case by (simp add: key_entries_def)
next
  case (snoc e es)
  from snoc.prems obtain bs' v where bs: "bs = bs' @ [(generate_event_key X e, v)]"
    and v: "serialize X ser e = Inr v" and bs': "encoded X ser es bs'"
    by (auto simp: encoded_def list_all2_append1 list_all2_Cons1)
  have d: "decoded X ser v = Some e"
    using deserialize_serialize[OF v] by (simp add: deserialize_decoded)
  show ?case
    using snoc.IH[OF bs'] by (auto simp: bs d key_entries_def split: option.splits)
qed

lemma view_after_write:
  assumes "encoded X (es_serializer s) es bs" and "es_serializer s' = es_serializer s"
    and "map_of (contents (es_db s')) = batch_apply (map_of (contents (es_db s))) bs"
  shows "event_view X contents s' = event_view X contents s ++ key_entries (generate_event_key X) es"
proof
  fix k
  show "event_view X contents s' k =
      (event_view X contents s ++ key_entries (generate_event_key X) es) k"
    using encoded_entries[OF assms(1), of k]
    by (auto simp: event_view_decoded assms batch_apply_map_of map_add_def split: option.splits)
qed

lemma wf_after_write:
  assumes wf: "store_wf X contents s" and enc: "encoded X (es_serializer s) es bs"
    and ser: "es_serializer s' = es_serializer s"
    and eq: "map_of (contents (es_db s')) = batch_apply (map_of (contents (es_db s))) bs"
  shows "store_wf X contents s'"
  unfolding store_wf_iff
proof (intro allI impI)
  fix k v
  assume kv: "map_of (contents (es_db s')) k = Some v"
  show "\<exists>e. decoded X (es_serializer s') v = Some e \<and> generate_event_key X e = k"
  proof (cases "map_of (rev bs) k")
    case None
    then show ?thesis
      using kv wf by (auto simp: eq batch_apply_map_of map_add_Some_iff ser store_wf_iff)
  next
    case (Some w)
    then have "w = v" using kv by (simp add: eq batch_apply_map_of map_add_Some_iff)
    with encoded_entries[OF enc, of k] Some obtain e
      where "decoded X (es_serializer s) v = Some e"
        "key_entries (generate_event_key X) es k = Some e" by auto
    then show ?thesis using key_entries_Some by (force simp: ser)
  qed
qed

lemma absent_view:
  "store_wf X contents s \<Longrightarrow> all_absent R X s es \<Longrightarrow> e \<in> set es \<Longrightarrow>
     event_view X contents s (generate_event_key X e) = None"
  by (auto simp: view_None_iff all_absent_def dest!: get_Ok)

text \<open>One write of an encoded batch under fresh keys, successful or not.\<close>

lemma write_batch_outcome:
  assumes "encoded X (es_serializer s) es bs" and "write_batch R s bs sync x = (r, s')"
  shows "es_serializer s' = es_serializer s
    \<and> (if r = Inr x then map_of (contents (es_db s')) = batch_apply (map_of (contents (es_db s))) bs
       else (\<exists>m. r = Inl (DatabaseError m))
         \<and> (map_of (contents (es_db s')) = map_of (contents (es_db s))
            \<or> map_of (contents (es_db s')) = batch_apply (map_of (contents (es_db s))) bs))"
  using assms(2)
  by (auto simp: write_batch_def split: prod.splits sum.splits dest: write_Ok write_Err)

lemma view_eqI:
  "map_of (contents (es_db s')) = map_of (contents (es_db s)) \<Longrightarrow>
   es_serializer s' = es_serializer s \<Longrightarrow>
     event_view X contents s' = event_view X contents s
     \<and> (store_wf X contents s' \<longleftrightarrow> store_wf X contents s)"
  by (simp add: event_view_decoded fun_eq_iff store_wf_iff)

lemma batch_contract:
  assumes wf: "store_wf X contents s" and enc: "encoded X (es_serializer s) es bs"
    and abs: "all_absent R X s es" and w: "write_batch R s bs sync x = (r, s')"
  shows "store_wf X contents s'"
    and "r = Inr y \<Longrightarrow> event_view X contents s' =
           event_view X contents s ++ key_entries (generate_event_key X) es"
    and "event_view X contents s' = event_view X contents s
         \<or> event_view X contents s' =
             event_view X contents s ++ key_entries (generate_event_key X) es"
  using write_batch_outcome[OF enc w] view_after_write[OF enc, of s'] wf_after_write[OF wf enc, of s']
    view_eqI[of s' s] wf
  by (auto split: if_splits)

end

section \<open>The batch operations keep the contract\<close>

context event_store_env
begin

lemma append_events_cases:
  assumes "append_events R X s es = (r, s')"
  obtains (unchanged) "s' = s" and "es = [] \<or> (\<exists>err. r = Inl err)" and "es = [] \<longrightarrow> r = Inr ()"
  | (written) bs where "encoded X (es_serializer s) es bs" and "all_absent R X s es"
      and "write_batch R s bs (sync_writes (es_config s)) () = (r, s')"
proof (cases "es \<noteq> [] \<and> (\<exists>bs. encoded X (es_serializer s) es bs \<and> all_absent R X s es)")
  case True
  then obtain bs where b: "encoded X (es_serializer s) es bs" "all_absent R X s es" by blast
  with True assms have "write_batch R s bs (sync_writes (es_config s)) () = (r, s')"
    by (simp add: append_events_eq)
  with b show ?thesis by (rule that(2))
next
  case False
  show ?thesis
  proof (cases "es = []")
    case True
    then have "r = Inr ()" "s' = s" using assms by (simp_all add: append_events_def)
    with True show ?thesis by (intro that(1)) auto
  next
    case ne: False
    with False obtain err where "append_events R X s es = (Inl err, s)"
      using append_events_fails[of es X s R] by blast
    with assms ne show ?thesis by (intro that(1)) auto
  qed
qed

lemma optimized_cases:
  assumes "append_events_optimized R X t s es = (r, s')"
  obtains (unchanged) "s' = s" and "es = [] \<or> (\<exists>err. r = Inl err)"
      and "es = [] \<longrightarrow> r = Inr (batch_result [] [] 0)"
  | (written) bs where "encoded X (es_serializer s) es bs" and "all_absent R X s es"
      and "write_batch R s bs (optimized_sync s es) (batch_result es bs t) = (r, s')"
proof (cases "es \<noteq> [] \<and> (\<exists>bs. encoded X (es_serializer s) es bs \<and> all_absent R X s es)")
  case True
  then obtain bs where b: "encoded X (es_serializer s) es bs" "all_absent R X s es" by blast
  with True assms have "write_batch R s bs (optimized_sync s es) (batch_result es bs t) = (r, s')"
    by (simp add: optimized_eq)
  with b show ?thesis by (rule that(2))
next
  case False
  show ?thesis
  proof (cases "es = []")
    case True
    then have "r = Inr (batch_result [] [] 0)" "s' = s" using assms by (simp_all add: append_events_optimized_def batch_result_def)
    with True show ?thesis by (intro that(1)) auto
  next
    case ne: False
    with False obtain err where "append_events_optimized R X t s es = (Inl err, s)"
      using optimized_fails[of es X s R t] by blast
    with assms ne show ?thesis by (intro that(1)) auto
  qed
qed

lemma key_entries_Nil [simp]: "key_entries k [] = Map.empty"
  by (simp add: key_entries_def)

text \<open>The contract of both operations, from what their successful and failing runs do.\<close>

lemma batch_step:
  assumes "store_wf X contents s" and "encoded X (es_serializer s) es bs"
    and "all_absent R X s es" and "write_batch R s bs sync x = (r, s')"
  shows "store_wf X contents s'
    \<and> (\<forall>e\<in>set es. event_view X contents s (generate_event_key X e) = None)
    \<and> (isl r \<or> event_view X contents s' =
          event_view X contents s ++ key_entries (generate_event_key X) es)
    \<and> (event_view X contents s' = event_view X contents s
       \<or> event_view X contents s' =
          event_view X contents s ++ key_entries (generate_event_key X) es)"
  using batch_contract[OF assms] absent_view[OF assms(1,3)] by (cases r) auto

lemma append_events_step:
  assumes wf: "store_wf X contents s" and a: "append_events R X s es = (r, s')"
  shows "store_wf X contents s'
    \<and> (isl r \<or> (\<forall>e\<in>set es. event_view X contents s (generate_event_key X e) = None)
        \<and> event_view X contents s' = event_view X contents s ++ key_entries (generate_event_key X) es)
    \<and> (event_view X contents s' = event_view X contents s
       \<or> (\<forall>e\<in>set es. event_view X contents s (generate_event_key X e) = None)
        \<and> event_view X contents s' = event_view X contents s ++ key_entries (generate_event_key X) es)"
  using a
proof (cases rule: append_events_cases)
  case unchanged
  with wf show ?thesis by auto
next
  case (written bs)
  from batch_step[OF wf this] show ?thesis by blast
qed

lemma optimized_step:
  assumes wf: "store_wf X contents s" and a: "append_events_optimized R X t s es = (r, s')"
  shows "store_wf X contents s'
    \<and> (isl r \<or> (\<forall>e\<in>set es. event_view X contents s (generate_event_key X e) = None)
        \<and> event_view X contents s' = event_view X contents s ++ key_entries (generate_event_key X) es)
    \<and> (event_view X contents s' = event_view X contents s
       \<or> (\<forall>e\<in>set es. event_view X contents s (generate_event_key X e) = None)
        \<and> event_view X contents s' = event_view X contents s ++ key_entries (generate_event_key X) es)"
  using a
proof (cases rule: optimized_cases)
  case unchanged
  with wf show ?thesis by auto
next
  case (written bs)
  from batch_step[OF wf this] show ?thesis by blast
qed

end

sublocale event_store_env \<subseteq> plain: append_log "\<lambda>es s. append_events R X s es"
  "event_view X contents" "generate_event_key X" "store_wf X contents"
  by unfold_locales (auto dest: append_events_step)

sublocale event_store_env \<subseteq> optimized: append_log "\<lambda>es s. append_events_optimized R X t s es"
  "event_view X contents" "generate_event_key X" "store_wf X contents" for t
  by unfold_locales (auto dest: optimized_step)

section \<open>Single appends, and any sequence of operations\<close>

lemma fresh_update:
  "v' = v \<or> v k = None \<and> v' = v(k \<mapsto> e) \<Longrightarrow> v \<subseteq>\<^sub>m v' \<and> ran v' \<subseteq> ran v \<union> {e}"
  by (auto simp: map_le_def ran_def split: if_splits)

lemma key_entries_single: "m ++ key_entries key [e] = m(key e \<mapsto> e)"
  by (simp add: key_entries_def)

context event_store_env
begin

lemma append_event_step:
  assumes wf: "store_wf X contents s" and a: "append_event R X s e = (r, s')"
  shows "store_wf X contents s'
    \<and> (isl r \<or> event_view X contents s (generate_event_key X e) = None
        \<and> event_view X contents s' = (event_view X contents s)(generate_event_key X e \<mapsto> e))
    \<and> (s' = s \<and> isl r
       \<or> event_view X contents s (generate_event_key X e) = None
         \<and> (event_view X contents s' = event_view X contents s
            \<or> event_view X contents s' = (event_view X contents s)(generate_event_key X e \<mapsto> e)))"
proof (cases "db_get R (es_db s) (generate_event_key X e) = Inr None
    \<and> (\<exists>v. serialize X (es_serializer s) e = Inr v)")
  case False
  then have "s' = s \<and> isl r"
    using a by (auto simp: append_event_def Let_def split: sum.splits option.splits)
  with wf show ?thesis by simp
next
  case True
  then obtain v where g: "db_get R (es_db s) (generate_event_key X e) = Inr None"
    and v: "serialize X (es_serializer s) e = Inr v" by blast
  let ?bs = "[(generate_event_key X e, v)]"
  have enc: "encoded X (es_serializer s) [e] ?bs" using v by simp
  have absent: "event_view X contents s (generate_event_key X e) = None"
    using absent_view[OF wf, of "[e]" e] g by simp
  obtain d where d: "s' = s\<lparr>es_db := d\<rparr>"
    and p: "db_put_opt R (es_db s) (generate_event_key X e) v
          \<lparr>wo_sync = sync_writes (es_config s), wo_disable_wal = False\<rparr> = (map_err (\<lambda>_. ''m'') r, d)
        \<or> (\<exists>m. db_put_opt R (es_db s) (generate_event_key X e) v
          \<lparr>wo_sync = sync_writes (es_config s), wo_disable_wal = False\<rparr> = (Inl m, d) \<and> isl r)"
    using a g v by (auto simp: append_event_def split: prod.splits sum.splits)
  let ?new = "map_of (contents d) = batch_apply (map_of (contents (es_db s))) ?bs"
  have stepped: "?new \<or> isl r \<and> map_of (contents d) = map_of (contents (es_db s))"
    using p by (cases r) (auto dest: put_Ok put_Err)
  have new: "?new \<Longrightarrow> store_wf X contents s' \<and>
      event_view X contents s' = (event_view X contents s)(generate_event_key X e \<mapsto> e)"
    using wf_after_write[OF wf enc, of s'] view_after_write[OF enc, of s']
    by (simp add: d key_entries_single)
  have old: "map_of (contents d) = map_of (contents (es_db s)) \<Longrightarrow>
      store_wf X contents s' \<and> event_view X contents s' = event_view X contents s"
    using view_eqI[of s' s] wf by (simp add: d)
  show ?thesis using stepped new old absent by blast
qed

lemma append_event_exists:
  assumes wf: "store_wf X contents s" and "event_view X contents s (generate_event_key X e) \<noteq> None"
  shows "(\<exists>m. append_event R X s e = (Inl (DatabaseError m), s))
    \<or> append_event R X s e = (Inl (event_exists_error X (generate_event_key X e)), s)"
  using assms get_Ok[of "es_db s" "generate_event_key X e"]
  by (cases "db_get R (es_db s) (generate_event_key X e)")
    (auto simp: append_event_def view_None_iff)

lemma compact_step:
  "store_wf X contents s \<Longrightarrow> compact R s = (r, s') \<Longrightarrow>
     r = Inr () \<and> store_wf X contents s' \<and> event_view X contents s' = event_view X contents s"
  using view_eqI[of s' s] by (auto simp: compact_def compact_keeps)

end

text \<open>The operations that write, and a run of them in any order.\<close>

datatype StoreOp =
    OpAppend EventEnvelope
  | OpAppendEvents "EventEnvelope list"
  | OpAppendOptimized nat "EventEnvelope list"
  | OpCompact

fun run_op :: "'db RocksDB \<Rightarrow> Libs \<Rightarrow> StoreOp \<Rightarrow> 'db EventStore \<Rightarrow> 'db EventStore" where
  "run_op R X (OpAppend e) s = snd (append_event R X s e)"
| "run_op R X (OpAppendEvents es) s = snd (append_events R X s es)"
| "run_op R X (OpAppendOptimized t es) s = snd (append_events_optimized R X t s es)"
| "run_op R X OpCompact s = snd (compact R s)"

definition run_ops :: "'db RocksDB \<Rightarrow> Libs \<Rightarrow> StoreOp list \<Rightarrow> 'db EventStore \<Rightarrow> 'db EventStore" where
  "run_ops R X ops s = fold (run_op R X) ops s"

fun op_events :: "StoreOp \<Rightarrow> EventEnvelope set" where
  "op_events (OpAppend e) = {e}"
| "op_events (OpAppendEvents es) = set es"
| "op_events (OpAppendOptimized t es) = set es"
| "op_events OpCompact = {}"

context event_store_env
begin

lemma run_op_step:
  assumes wf: "store_wf X contents s"
  shows "store_wf X contents (run_op R X op s)
    \<and> event_view X contents s \<subseteq>\<^sub>m event_view X contents (run_op R X op s)
    \<and> ran (event_view X contents (run_op R X op s)) \<subseteq> ran (event_view X contents s) \<union> op_events op"
proof (cases op)
  case (OpAppend e)
  let ?s' = "snd (append_event R X s e)" and ?k = "generate_event_key X e"
  note step = append_event_step[OF wf surjective_pairing, of e]
  have "event_view X contents ?s' = event_view X contents s
      \<or> event_view X contents s ?k = None
        \<and> event_view X contents ?s' = (event_view X contents s)(?k \<mapsto> e)"
    using step by metis
  from fresh_update[OF this] step show ?thesis unfolding OpAppend by simp
next
  case (OpAppendEvents es)
  note p = surjective_pairing[of "append_events R X s es"]
  from plain.append_inv[OF wf p] plain.append_only[OF wf p] plain.append_origin[OF wf p]
  show ?thesis unfolding OpAppendEvents by (fastforce simp: ran_def)
next
  case (OpAppendOptimized t es)
  note p = surjective_pairing[of "append_events_optimized R X t s es"]
  from optimized.append_inv[OF wf p] optimized.append_only[OF wf p] optimized.append_origin[OF wf p]
  show ?thesis unfolding OpAppendOptimized by (fastforce simp: ran_def)
next
  case OpCompact
  from compact_step[OF wf surjective_pairing] show ?thesis unfolding OpCompact by simp
qed

lemma run_ops_step:
  "store_wf X contents s \<Longrightarrow> store_wf X contents (run_ops R X ops s)
    \<and> event_view X contents s \<subseteq>\<^sub>m event_view X contents (run_ops R X ops s)
    \<and> ran (event_view X contents (run_ops R X ops s))
        \<subseteq> ran (event_view X contents s) \<union> \<Union> (op_events ` set ops)"
proof (induction ops arbitrary: s)
  case Nil
  then show ?case by (simp add: run_ops_def)
next
  case (Cons op ops)
  have eq: "run_ops R X (op # ops) s = run_ops R X ops (run_op R X op s)"
    by (simp add: run_ops_def)
  note step = run_op_step[OF Cons.prems, of op]
  then have "store_wf X contents (run_op R X op s)" by blast
  from Cons.IH[OF this] step show ?case unfolding eq by (auto intro: map_le_trans)
qed

end

section \<open>The loops' errors, and the counts\<close>

lemma append_loop_errors:
  "append_loop R X s es b = Inl err \<Longrightarrow> (\<exists>m. err = DatabaseError m)
    \<or> (\<exists>d\<in>set es. \<exists>v. db_get R (es_db s) (generate_event_key X d) = Inr (Some v)
          \<and> err = event_exists_error X (generate_event_key X d))
    \<or> (\<exists>d\<in>set es. \<exists>se. serialize X (es_serializer s) d = Inl se \<and> err = StoreSerializationError se)"
  by (induction es arbitrary: b)
    (auto simp: Let_def split: sum.splits option.splits; blast)+

lemma validate_loop_errors:
  "validate_loop R X s es = Inl err \<Longrightarrow> (\<exists>m. err = DatabaseError m)
    \<or> (\<exists>d\<in>set es. \<exists>v. db_get R (es_db s) (generate_event_key X d) = Inr (Some v)
          \<and> err = event_exists_error X (generate_event_key X d))"
  by (induction es) (auto simp: Let_def split: sum.splits option.splits)

lemma build_loop_errors:
  "build_loop X ser es b n = Inl err \<Longrightarrow>
     (\<exists>d\<in>set es. \<exists>se. serialize X ser d = Inl se \<and> err = StoreSerializationError se)"
  by (induction es arbitrary: b n) (auto simp: Let_def split: sum.splits)

lemma encoded_bytes:
  "encoded X ser es bs \<Longrightarrow> 24 * length es \<le> sum_list (map (\<lambda>(k, v). length k + length v) bs)"
  by (induction es arbitrary: bs) fastforce+

lemma optimized_counts:
  assumes "append_events_optimized R X t s es = (Inr r, s')"
  shows "events_written r = length es \<and> 24 * length es \<le> bytes_written r"
proof (cases "es = []")
  case True
  with assms show ?thesis by (auto simp: append_events_optimized_def)
next
  case False
  obtain bs where bs: "encoded X (es_serializer s) es bs" "all_absent R X s es"
    using optimized_fails[OF False, of X s R t] assms by auto
  with assms False have "r = batch_result es bs t"
    by (auto simp: optimized_eq write_batch_def split: prod.splits sum.splits)
  with encoded_bytes[OF bs(1)] show ?thesis by (simp add: batch_result_def)
qed

section \<open>The in-memory instance\<close>

definition demo_store :: "bool \<Rightarrow> ram EventStore" where
  "demo_store compression =
     \<lparr>es_db = [], es_serializer = serializer_new compression, es_config = config_default\<rparr>"

interpretation demo: event_store_env ram_db ram_contents "table_libs tbl" for tbl
  by unfold_locales

lemma demo_env: "event_store_env ram_db ram_contents (table_libs tbl)"
  by (rule demo.event_store_env_axioms)

lemma demo_wf: "store_wf X ram_contents (demo_store z)"
  by (simp add: store_wf_def demo_store_def)

lemmas demo_simps = demo_store_def ram_db_def table_simps all_absent_def write_batch_def

section \<open>Properties\<close>

text \<open>C1: A single append refines the insertion into a map under a fresh key. On success the key
  was free and the view is updated there and nowhere else; if the key is taken nothing changes
  and the answer is the append-only error (or an error of the lookup itself); every failure
  leaves the view alone or, if the database reports an error after the write, complete; and the
  store stays well formed.\<close>

theorem append_event_refines:
  assumes "event_store_env R contents X" and "store_wf X contents s"
    and "append_event R X s e = (r, s')"
  shows "store_wf X contents s'
    \<and> (r = Ok () \<longrightarrow> event_view X contents s (generate_event_key X e) = None
        \<and> event_view X contents s' = (event_view X contents s)(generate_event_key X e \<mapsto> e))
    \<and> (event_view X contents s (generate_event_key X e) \<noteq> None \<longrightarrow> s' = s
        \<and> (r = Err (event_exists_error X (generate_event_key X e)) \<or> (\<exists>m. r = Err (DatabaseError m))))
    \<and> (event_view X contents s' = event_view X contents s
       \<or> event_view X contents s' = (event_view X contents s)(generate_event_key X e \<mapsto> e))"
  using event_store_env.append_event_step[OF assms]
    event_store_env.append_event_exists[OF assms(1,2), of e] assms(3)
  by auto

theorem append_event_refines_witness:
  "\<exists>s'. append_event ram_db (table_libs [root_event 1 5]) (demo_store True) (root_event 1 5) = (Ok (), s')
     \<and> event_view (table_libs [root_event 1 5]) ram_contents s'
         (generate_event_key (table_libs [root_event 1 5]) (root_event 1 5)) = Some (root_event 1 5)"
proof -
  let ?X = "table_libs [root_event 1 5]" and ?e = "root_event 1 5"
  obtain s' where a: "append_event ram_db ?X (demo_store True) ?e = (Inr (), s')"
    by (simp add: append_event_def demo_simps Let_def)
  from append_event_refines[OF demo_env demo_wf a] a show ?thesis by auto
qed

text \<open>C2: A batch append refines the insertion of the whole batch. On success every key of the
  batch was free and the view gains exactly the batch (of two events with one key, the later);
  on failure the view gains the whole batch or nothing; the store stays well formed.\<close>

theorem append_events_refines:
  assumes "event_store_env R contents X" and "store_wf X contents s"
    and "append_events R X s es = (r, s')"
  shows "store_wf X contents s'
    \<and> (r = Ok () \<longrightarrow> (\<forall>e\<in>set es. event_view X contents s (generate_event_key X e) = None)
        \<and> event_view X contents s' = event_view X contents s ++ key_entries (generate_event_key X) es)
    \<and> (event_view X contents s' = event_view X contents s
       \<or> event_view X contents s' = event_view X contents s ++ key_entries (generate_event_key X) es)"
  using event_store_env.append_events_step[OF assms] by auto

theorem append_events_refines_witness:
  "\<exists>s'. append_events ram_db (table_libs [root_event 1 5, root_event 2 5]) (demo_store False)
       [root_event 2 5, root_event 1 5] = (Ok (), s')
     \<and> dom (event_view (table_libs [root_event 1 5, root_event 2 5]) ram_contents s') =
         generate_event_key (table_libs [root_event 1 5, root_event 2 5]) ` {root_event 2 5, root_event 1 5}"
proof -
  let ?X = "table_libs [root_event 1 5, root_event 2 5]" and ?es = "[root_event 2 5, root_event 1 5]"
  obtain s' where a: "append_events ram_db ?X (demo_store False) ?es = (Inr (), s')"
    by (simp add: append_events_def demo_simps Let_def)
  have "dom (event_view ?X ram_contents (demo_store False)) = {}"
    by (auto simp: event_view_def demo_store_def)
  then show ?thesis
    using append_events_refines[OF demo_env demo_wf a] a by (simp add: Un_commute)
qed

text \<open>The optimized append reports one written event per event of the batch and at least
  24 bytes each, but the store grows by the number of distinct keys: the report is the number of
  events added just when no two events of the batch share a key. Events that do share one are
  not refused, the earlier is overwritten by the later in the same batch.\<close>

theorem optimized_append_counts:
  assumes "event_store_env R contents X" and "store_wf X contents s"
    and "append_events_optimized R X t s es = (Ok r, s')"
  shows "event_view X contents s' = event_view X contents s ++ key_entries (generate_event_key X) es
    \<and> events_written r = length es \<and> 24 * length es \<le> bytes_written r
    \<and> card (dom (event_view X contents s')) =
        card (dom (event_view X contents s)) + card (generate_event_key X ` set es)
    \<and> (card (dom (event_view X contents s')) = card (dom (event_view X contents s)) + events_written r
        \<longleftrightarrow> distinct (map (generate_event_key X) es))"
proof -
  let ?key = "generate_event_key X" and ?v = "event_view X contents s"
  let ?v' = "event_view X contents s'"
  note step = event_store_env.optimized_step[OF assms]
  then have v': "?v' = ?v ++ key_entries ?key es" and fresh: "\<forall>e\<in>set es. ?v (?key e) = None"
    by auto
  have "dom ?v' = dom ?v \<union> ?key ` set es" unfolding v' by auto
  moreover have "dom ?v \<inter> ?key ` set es = {}" using fresh by auto
  ultimately have card: "card (dom ?v') = card (dom ?v) + card (?key ` set es)"
    using event_store_env.finite_dom_view[OF assms(1), of s] by (simp add: card_Un_disjoint)
  have len: "events_written r = length es \<and> 24 * length es \<le> bytes_written r"
    using optimized_counts[OF assms(3)] .
  have "card (?key ` set es) = length es \<longleftrightarrow> distinct (map ?key es)"
    using card_distinct[of "map ?key es"] distinct_card[of "map ?key es"] by auto
  with v' card len show ?thesis by simp
qed

theorem optimized_append_counts_witness:
  "\<exists>r s'. append_events_optimized ram_db (table_libs [root_event 1 5]) 0 (demo_store False)
       [root_event 1 5, root_event 1 5] = (Ok r, s') \<and> events_written r = 2
     \<and> card (dom (event_view (table_libs [root_event 1 5]) ram_contents s')) = 1"
proof -
  let ?X = "table_libs [root_event 1 5]" and ?es = "[root_event 1 5, root_event 1 5]"
  obtain r s' where a: "append_events_optimized ram_db ?X 0 (demo_store False) ?es = (Inr r, s')"
    by (simp add: append_events_optimized_def demo_simps Let_def)
  have "dom (event_view ?X ram_contents (demo_store False)) = {}"
    by (auto simp: event_view_def demo_store_def)
  with optimized_append_counts[OF demo_env demo_wf a] a show ?thesis by auto
qed

text \<open>C28: The two batch operations are the same operation: as long as they ask for the same sync
  mode (at most 100 events, or no sync configured), they succeed on the same batches and leave
  the same store.\<close>

theorem append_events_equivalent:
  assumes "length es \<le> 100 \<or> \<not> sync_writes (es_config s)"
  shows "snd (append_events R X s es) = snd (append_events_optimized R X t s es)
    \<and> (isl (fst (append_events R X s es)) \<longleftrightarrow> isl (fst (append_events_optimized R X t s es)))"
proof (cases "es \<noteq> [] \<and> (\<exists>bs. encoded X (es_serializer s) es bs \<and> all_absent R X s es)")
  case True
  then obtain bs where "encoded X (es_serializer s) es bs" "all_absent R X s es" by blast
  with True assms show ?thesis
    by (auto simp: append_events_eq optimized_eq optimized_sync_def write_batch_def
        split: prod.splits sum.splits)
next
  case False
  show ?thesis
  proof (cases "es = []")
    case True
    then show ?thesis by (simp add: append_events_def append_events_optimized_def)
  next
    case ne: False
    with False obtain e1 e2 where "append_events R X s es = (Inl e1, s)"
      "append_events_optimized R X t s es = (Inl e2, s)"
      using append_events_fails[of es X s R] optimized_fails[of es X s R t] by blast
    then show ?thesis by simp
  qed
qed

theorem append_events_equivalent_witness:
  "snd (append_events ram_db (table_libs []) (demo_store True) [root_event 1 5]) =
   snd (append_events_optimized ram_db (table_libs []) 3 (demo_store True) [root_event 1 5])"
  using append_events_equivalent[of "[root_event 1 5]" "demo_store True" ram_db "table_libs []" 3]
  by simp

text \<open>C29: An append that answers anything but a database error has touched nothing, and then
  the error is one of two: an event of the call is already stored under its key, or the
  serializer refused an event.\<close>

theorem append_error_cases:
  assumes "append_event R X s e = (Err err, s') \<or> append_events R X s es = (Err err, s')
      \<or> append_events_optimized R X t s es = (Err err, s')"
    and "\<forall>m. err \<noteq> DatabaseError m"
  shows "s' = s
    \<and> ((\<exists>d\<in>set (e # es). \<exists>v. db_get R (es_db s) (generate_event_key X d) = Ok (Some v)
            \<and> err = event_exists_error X (generate_event_key X d))
       \<or> (\<exists>d\<in>set (e # es). \<exists>se. serialize X (es_serializer s) d = Err se
            \<and> err = StoreSerializationError se))"
  using assms(1)
proof (elim disjE)
  assume "append_event R X s e = (Err err, s')"
  with assms(2) show ?thesis
    by (auto simp: append_event_def Let_def split: sum.splits option.splits prod.splits)
next
  assume "append_events R X s es = (Err err, s')"
  then have "append_loop R X s es [] = Inl err \<and> s' = s"
    using assms(2) by (auto simp: append_events_def write_batch_def
        split: if_splits sum.splits prod.splits)
  with append_loop_errors[of R X s es "[]" err] assms(2) show ?thesis by auto
next
  assume "append_events_optimized R X t s es = (Err err, s')"
  then have "(validate_loop R X s es = Inl err \<or> build_loop X (es_serializer s) es [] 0 = Inl err)
      \<and> s' = s"
    using assms(2) by (auto simp: append_events_optimized_def write_batch_def
        split: if_splits sum.splits prod.splits)
  with validate_loop_errors[of R X s es err] build_loop_errors[of X "es_serializer s" es "[]" 0 err]
    assms(2) show ?thesis by auto
qed

theorem append_error_cases_witness:
  "\<exists>err s'. append_event ram_db (table_libs []) (demo_store True) (root_event 1 5) = (Err err, s')
     \<and> s' = demo_store True"
proof -
  have a: "append_event ram_db (table_libs []) (demo_store True) (root_event 1 5) =
      (Inl (StoreSerializationError (SerializationFailed ''unsupported'')), demo_store True)"
    by (simp add: append_event_def demo_simps Let_def)
  from append_error_cases[OF disjI1[OF a]] a show ?thesis by auto
qed

text \<open>C3: Append-only, for ever: whatever operations run on a store, in whatever order and with
  whatever results, the store stays well formed, every event it held is still held under its key
  and unchanged, and every event it holds was held before or handed to one of the operations.\<close>

theorem store_append_only:
  assumes "event_store_env R contents X" and "store_wf X contents s"
  shows "store_wf X contents (run_ops R X ops s)
    \<and> event_view X contents s \<subseteq>\<^sub>m event_view X contents (run_ops R X ops s)
    \<and> ran (event_view X contents (run_ops R X ops s))
        \<subseteq> ran (event_view X contents s) \<union> \<Union> (op_events ` set ops)"
  using assms by (rule event_store_env.run_ops_step)

theorem store_append_only_witness:
  "event_view (table_libs [root_event 1 5]) ram_contents (run_ops ram_db (table_libs [root_event 1 5])
       [OpAppend (root_event 1 5), OpCompact, OpAppendEvents [root_event 1 5]] (demo_store True))
     (generate_event_key (table_libs [root_event 1 5]) (root_event 1 5)) = Some (root_event 1 5)"
proof -
  let ?X = "table_libs [root_event 1 5]" and ?e = "root_event 1 5"
  let ?s = "run_op ram_db ?X (OpAppend ?e) (demo_store True)"
  have wf: "store_wf ?X ram_contents ?s"
    using store_append_only[OF demo_env demo_wf, where ops = "[OpAppend ?e]"] by (simp add: run_ops_def)
  have "event_view ?X ram_contents ?s (generate_event_key ?X ?e) = Some ?e"
    by (simp add: append_event_def demo_simps Let_def event_view_def)
  then show ?thesis
    using store_append_only[OF demo_env wf, where ops = "[OpCompact, OpAppendEvents [?e]]"]
    by (auto simp: run_ops_def map_le_def dom_def)
qed

end
