(* ===== verification/EventQueries.thy ===== *)
theory EventQueries
  imports StoreAppend
begin

text \<open>
  The read half of \<^verbatim>\<open>store.rs\<close>: the query loop with its filters and pagination, the
  lookups built on it, the latest events and the statistics. Each loop is translated as it
  is written, over the items of a database iterator, errors included; on a well-formed store
  it is shown equal to a selection from the list of stored events in key order.
\<close>

section \<open>Queries\<close>

record EventQuery =
  q_account_id :: "AccountId option"
  q_start_time :: "DateTime option"
  q_end_time :: "DateTime option"
  q_limit :: "nat option"
  q_offset :: "nat option"
  q_event_types :: "string list option"

record EventQueryResult =
  events :: "EventEnvelope list"
  total_count :: "nat option"
  has_more :: bool

record EventStoreStatistics =
  total_events :: nat
  oldest_event :: "DateTime option"
  newest_event :: "DateTime option"
  database_size_bytes :: nat

text \<open>The query every lookup starts from: no filter, no bound.\<close>

definition query_all :: EventQuery where
  "query_all = \<lparr>q_account_id = None, q_start_time = None, q_end_time = None, q_limit = None,
     q_offset = None, q_event_types = None\<rparr>"

fun event_matches_account :: "EventEnvelope \<Rightarrow> AccountId \<Rightarrow> bool" where
  "event_matches_account envelope a =
     (case event_data envelope of
        AccountCreated ev \<Rightarrow> ac_account_id ev = a
      | AccountStatusChanged ev \<Rightarrow> sc_account_id ev = a
      | AccountMetadataUpdated ev \<Rightarrow> mu_account_id ev = a
      | TransactionProcessed ev \<Rightarrow> tp_from_account ev = Some a \<or> tp_to_account ev = Some a
      | BalanceUpdated ev \<Rightarrow> bu_account_id ev = a
      | _ \<Rightarrow> False)"

declare event_matches_account.simps [simp del]

type_synonym item = "string + key \<times> val"

fun query_loop ::
  "Libs \<Rightarrow> EventSerializer \<Rightarrow> EventQuery \<Rightarrow> nat \<Rightarrow> nat \<Rightarrow> item list \<Rightarrow> EventEnvelope list \<Rightarrow> nat
     \<Rightarrow> EventStoreError + EventEnvelope list"
where
  "query_loop X ser q limit offset [] evs count = Ok evs"
| "query_loop X ser q limit offset (Inl m # items) evs count = Err (DatabaseError m)"
| "query_loop X ser q limit offset (Inr (k, v) # items) evs count =
     (case deserialize X ser v of
        Inl err \<Rightarrow> Err (StoreSerializationError err)
      | Inr envelope \<Rightarrow>
          if (case q_account_id q of Some a \<Rightarrow> \<not> event_matches_account envelope a | None \<Rightarrow> False)
          then query_loop X ser q limit offset items evs count
          else if (case q_end_time q of Some t \<Rightarrow> timestamp envelope > t | None \<Rightarrow> False)
          then Ok evs
          else if (case q_event_types q of Some ts \<Rightarrow> event_type envelope \<notin> set ts | None \<Rightarrow> False)
          then query_loop X ser q limit offset items evs count
          else if count < offset
          then query_loop X ser q limit offset items evs (count + 1)
          else if length evs \<ge> limit
          then Ok evs
          else query_loop X ser q limit offset items (evs @ [envelope]) (count + 1))"

definition query_mode :: "Libs \<Rightarrow> EventQuery \<Rightarrow> IteratorMode" where
  "query_mode X q =
     (case q_start_time q of
        Some t \<Rightarrow> From (generate_time_key_prefix X t) Forward
      | None \<Rightarrow> Start)"

definition query_limit :: "EventQuery \<Rightarrow> nat" where
  "query_limit q = (case q_limit q of Some n \<Rightarrow> n | None \<Rightarrow> 1000)"

definition query_offset :: "EventQuery \<Rightarrow> nat" where
  "query_offset q = (case q_offset q of Some n \<Rightarrow> n | None \<Rightarrow> 0)"

definition query_events ::
  "'db RocksDB \<Rightarrow> Libs \<Rightarrow> 'db EventStore \<Rightarrow> EventQuery \<Rightarrow> EventStoreError + EventQueryResult" where
  "query_events R X s q =
     try_bind
       (query_loop X (es_serializer s) q (query_limit q) (query_offset q)
         (db_iterator R (es_db s) (query_mode X q)) [] 0)
       (\<lambda>evs. Ok \<lparr>events = evs, total_count = None, has_more = (length evs = query_limit q)\<rparr>)"

definition get_account_events ::
  "'db RocksDB \<Rightarrow> Libs \<Rightarrow> 'db EventStore \<Rightarrow> AccountId \<Rightarrow> EventStoreError + EventEnvelope list" where
  "get_account_events R X s a =
     try_bind (query_events R X s (query_all\<lparr>q_account_id := Some a\<rparr>)) (\<lambda>r. Ok (events r))"

definition get_events_in_range ::
  "'db RocksDB \<Rightarrow> Libs \<Rightarrow> 'db EventStore \<Rightarrow> DateTime \<Rightarrow> DateTime \<Rightarrow> EventStoreError + EventEnvelope list"
where
  "get_events_in_range R X s start_time end_time =
     try_bind (query_events R X s (query_all\<lparr>q_start_time := Some start_time, q_end_time := Some end_time\<rparr>))
       (\<lambda>r. Ok (events r))"

section \<open>Scans\<close>

fun find_event ::
  "Libs \<Rightarrow> EventSerializer \<Rightarrow> EventId \<Rightarrow> item list \<Rightarrow> EventStoreError + EventEnvelope option" where
  "find_event X ser i [] = Ok None"
| "find_event X ser i (Inl m # items) = Err (DatabaseError m)"
| "find_event X ser i (Inr (k, v) # items) =
     (case deserialize X ser v of
        Inl err \<Rightarrow> Err (StoreSerializationError err)
      | Inr envelope \<Rightarrow>
          if event_id envelope = i then Ok (Some envelope) else find_event X ser i items)"

definition get_event ::
  "'db RocksDB \<Rightarrow> Libs \<Rightarrow> 'db EventStore \<Rightarrow> EventId \<Rightarrow> EventStoreError + EventEnvelope option" where
  "get_event R X s i = find_event X (es_serializer s) i (db_iterator R (es_db s) Start)"

fun collect_events ::
  "Libs \<Rightarrow> EventSerializer \<Rightarrow> item list \<Rightarrow> EventEnvelope list \<Rightarrow> EventStoreError + EventEnvelope list"
where
  "collect_events X ser [] evs = Ok evs"
| "collect_events X ser (Inl m # items) evs = Err (DatabaseError m)"
| "collect_events X ser (Inr (k, v) # items) evs =
     (case deserialize X ser v of
        Inl err \<Rightarrow> Err (StoreSerializationError err)
      | Inr envelope \<Rightarrow> collect_events X ser items (evs @ [envelope]))"

definition get_latest_events ::
  "'db RocksDB \<Rightarrow> Libs \<Rightarrow> 'db EventStore \<Rightarrow> nat \<Rightarrow> EventStoreError + EventEnvelope list" where
  "get_latest_events R X s limit =
     try_bind (collect_events X (es_serializer s) (take limit (db_iterator R (es_db s) End)) [])
       (\<lambda>evs. Ok (rev evs))"

fun statistics_loop ::
  "Libs \<Rightarrow> EventSerializer \<Rightarrow> item list \<Rightarrow> nat \<Rightarrow> DateTime option \<Rightarrow> DateTime option
     \<Rightarrow> EventStoreError + nat \<times> DateTime option \<times> DateTime option"
where
  "statistics_loop X ser [] n oldest newest = Ok (n, oldest, newest)"
| "statistics_loop X ser (Inl m # items) n oldest newest = Err (DatabaseError m)"
| "statistics_loop X ser (Inr (k, v) # items) n oldest newest =
     (case deserialize X ser v of
        Inl err \<Rightarrow> Err (StoreSerializationError err)
      | Inr envelope \<Rightarrow>
          let t = timestamp envelope in
          statistics_loop X ser items (n + 1)
            (case oldest of None \<Rightarrow> Some t | Some old \<Rightarrow> if t < old then Some t else oldest)
            (case newest of None \<Rightarrow> Some t | Some new \<Rightarrow> if t > new then Some t else newest))"

definition get_database_size :: "'db EventStore \<Rightarrow> EventStoreError + nat" where
  "get_database_size s = Ok 0"

definition get_statistics ::
  "'db RocksDB \<Rightarrow> Libs \<Rightarrow> 'db EventStore \<Rightarrow> EventStoreError + EventStoreStatistics" where
  "get_statistics R X s =
     try_bind (statistics_loop X (es_serializer s) (db_iterator R (es_db s) Start) 0 None None)
       (\<lambda>(n, oldest, newest). try_bind (get_database_size s)
          (\<lambda>size. Ok \<lparr>total_events = n, oldest_event = oldest, newest_event = newest,
              database_size_bytes = size\<rparr>))"

section \<open>The stored events, and selection from them\<close>

definition event_log ::
  "Libs \<Rightarrow> ('db \<Rightarrow> (key \<times> val) list) \<Rightarrow> 'db EventStore \<Rightarrow> EventEnvelope list" where
  "event_log X contents s =
     List.map_filter (\<lambda>(k, v). decoded X (es_serializer s) v) (contents (es_db s))"

definition account_ok :: "EventQuery \<Rightarrow> EventEnvelope \<Rightarrow> bool" where
  "account_ok q e \<longleftrightarrow> (\<forall>a. q_account_id q = Some a \<longrightarrow> event_matches_account e a)"

definition end_ok :: "EventQuery \<Rightarrow> EventEnvelope \<Rightarrow> bool" where
  "end_ok q e \<longleftrightarrow> (\<forall>t. q_end_time q = Some t \<longrightarrow> timestamp e \<le> t)"

definition start_ok :: "EventQuery \<Rightarrow> EventEnvelope \<Rightarrow> bool" where
  "start_ok q e \<longleftrightarrow> (\<forall>t. q_start_time q = Some t \<longrightarrow> t \<le> timestamp e)"

text \<open>What the iterator makes of the start: the nanoseconds of a start before 1970 become a number beyond
  every later instant, so that no event is reached; a start that nanoseconds of 64 bits cannot hold
  becomes 0, and every event is.\<close>

definition start_reached :: "EventQuery \<Rightarrow> EventEnvelope \<Rightarrow> bool" where
  "start_reached q e \<longleftrightarrow>
     (\<forall>t. q_start_time q = Some t \<longrightarrow> \<not> in_i64 t \<or> 0 \<le> t \<and> t \<le> timestamp e)"

lemma start_reached_keyable:
  "\<forall>t. q_start_time q = Some t \<longrightarrow> keyable t \<Longrightarrow> start_reached q = start_ok q"
  by (auto simp: start_reached_def start_ok_def keyable_def in_i64_def i64_min_def fun_eq_iff)

lemma start_reached_early:
  "q_start_time q = Some t \<Longrightarrow> in_i64 t \<Longrightarrow> t < 0 \<Longrightarrow> \<not> start_reached q e"
  by (auto simp: start_reached_def)

definition type_ok :: "EventQuery \<Rightarrow> EventEnvelope \<Rightarrow> bool" where
  "type_ok q e \<longleftrightarrow> (\<forall>ts. q_event_types q = Some ts \<longrightarrow> event_type e \<in> set ts)"

definition page :: "EventQuery \<Rightarrow> EventEnvelope list \<Rightarrow> EventEnvelope list" where
  "page q es = take (query_limit q) (drop (query_offset q) es)"

text \<open>Entries of the database that decode, one by one, to a list of events.\<close>

definition decodes :: "Libs \<Rightarrow> EventSerializer \<Rightarrow> (key \<times> val) list \<Rightarrow> EventEnvelope list \<Rightarrow> bool" where
  "decodes X ser kvs es \<longleftrightarrow> list_all2 (\<lambda>(k, v) e. deserialize X ser v = Inr e) kvs es"

lemma decodes_simps [simp]:
  "decodes X ser [] es \<longleftrightarrow> es = []"
  "decodes X ser ((k, v) # kvs) es \<longleftrightarrow>
     (\<exists>e es'. es = e # es' \<and> deserialize X ser v = Inr e \<and> decodes X ser kvs es')"
  by (auto simp: decodes_def list_all2_Cons1)

lemma decodes_take: "decodes X ser kvs es \<Longrightarrow> decodes X ser (take n kvs) (take n es)"
  by (simp add: decodes_def)

lemma decodes_rev: "decodes X ser kvs es \<Longrightarrow> decodes X ser (rev kvs) (rev es)"
  by (simp add: decodes_def)

lemma decodes_filter:
  "decodes X ser kvs es \<Longrightarrow> (\<And>k v e. deserialize X ser v = Inr e \<Longrightarrow> (k, v) \<in> set kvs \<Longrightarrow> P (k, v) \<longleftrightarrow> Q e) \<Longrightarrow>
     decodes X ser (filter P kvs) (filter Q es)"
  by (induction kvs arbitrary: es) auto

text \<open>The loops over entries that decode.\<close>

lemma query_loop_event:
  "deserialize X ser v = Inr e \<Longrightarrow>
     query_loop X ser q limit offset (Inr (k, v) # items) evs count =
       (if \<not> account_ok q e then query_loop X ser q limit offset items evs count
        else if \<not> end_ok q e then Inr evs
        else if \<not> type_ok q e then query_loop X ser q limit offset items evs count
        else if count < offset then query_loop X ser q limit offset items evs (count + 1)
        else if length evs \<ge> limit then Inr evs
        else query_loop X ser q limit offset items (evs @ [e]) (count + 1))"
  by (simp add: account_ok_def end_ok_def type_ok_def not_le split: option.splits)

lemma query_loop_decodes:
  "decodes X ser kvs es \<Longrightarrow> (count < offset \<Longrightarrow> evs = []) \<Longrightarrow>
     query_loop X ser q limit offset (map Inr kvs) evs count =
       Inr (evs @ take (limit - length evs) (drop (offset - count)
         (filter (type_ok q) (takeWhile (end_ok q) (filter (account_ok q) es)))))"
proof (induction kvs arbitrary: es evs count)
  case Nil
  then show ?case by simp
next
  case (Cons kv kvs)
  obtain k v where kv: "kv = (k, v)" by (cases kv)
  with Cons.prems obtain e es' where es: "es = e # es'" and v: "deserialize X ser v = Inr e"
    and d: "decodes X ser kvs es'" by auto
  note IH = Cons.IH[OF d] and step = query_loop_event[OF v]
  consider (skip) "\<not> account_ok q e \<or> account_ok q e \<and> end_ok q e \<and> \<not> type_ok q e"
    | (stop) "account_ok q e" "\<not> end_ok q e"
    | (offset) "account_ok q e" "end_ok q e" "type_ok q e" "count < offset"
    | (full) "account_ok q e" "end_ok q e" "type_ok q e" "\<not> count < offset" "limit \<le> length evs"
    | (push) "account_ok q e" "end_ok q e" "type_ok q e" "\<not> count < offset" "length evs < limit"
    by linarith
  then show ?case
  proof cases
    case skip
    then show ?thesis
      using IH[of count evs] Cons.prems(2) by (auto simp: kv es step simp del: query_loop.simps)
  next
    case stop
    then show ?thesis by (simp add: kv es step del: query_loop.simps)
  next
    case offset
    then show ?thesis
      using IH[of "count + 1" evs] Cons.prems(2)
      by (simp add: kv es step Suc_diff_Suc[symmetric] del: query_loop.simps)
  next
    case full
    then show ?thesis by (simp add: kv es step del: query_loop.simps)
  next
    case push
    then show ?thesis
      using IH[of "count + 1" "evs @ [e]"]
      by (simp add: kv es step Suc_diff_Suc[symmetric] del: query_loop.simps)
  qed
qed

lemma find_event_decodes:
  "decodes X ser kvs es \<Longrightarrow>
     find_event X ser i (map Inr kvs) = Inr (find (\<lambda>e. event_id e = i) es)"
  by (induction kvs arbitrary: es) auto

lemma collect_events_decodes:
  "decodes X ser kvs es \<Longrightarrow> collect_events X ser (map Inr kvs) evs = Inr (evs @ es)"
  by (induction kvs arbitrary: es evs) auto

text \<open>The running minimum and maximum of the statistics.\<close>

fun opt_min :: "DateTime option \<Rightarrow> DateTime list \<Rightarrow> DateTime option" where
  "opt_min old [] = old"
| "opt_min old (t # ts) = opt_min (Some (case old of None \<Rightarrow> t | Some o' \<Rightarrow> min o' t)) ts"

fun opt_max :: "DateTime option \<Rightarrow> DateTime list \<Rightarrow> DateTime option" where
  "opt_max new [] = new"
| "opt_max new (t # ts) = opt_max (Some (case new of None \<Rightarrow> t | Some n \<Rightarrow> max n t)) ts"

lemma Min_Max_absorb:
  "finite S \<Longrightarrow> Min (insert (min a b) S) = Min (insert a (insert (b :: int) S))"
  "finite S \<Longrightarrow> Max (insert (max a b) S) = Max (insert a (insert (b :: int) S))"
  by (cases "S = {}"; simp add: min.assoc max.assoc)+

lemma opt_min_Min: "opt_min (Some a) ts = Some (Min (set (a # ts)))"
  by (induction ts arbitrary: a) (simp_all add: Min_Max_absorb)

lemma opt_max_Max: "opt_max (Some a) ts = Some (Max (set (a # ts)))"
  by (induction ts arbitrary: a) (simp_all add: Min_Max_absorb)

lemma statistics_decodes:
  "decodes X ser kvs es \<Longrightarrow>
     statistics_loop X ser (map Inr kvs) n old new =
       Inr (n + length es, opt_min old (map timestamp es), opt_max new (map timestamp es))"
proof (induction kvs arbitrary: es n old new)
  case (Cons kv kvs)
  then show ?case
    by (cases kv) (auto simp: Let_def min_def max_def not_less split: option.splits)
qed simp

section \<open>Queries on a well-formed store\<close>

lemma sorted_takeWhile_filter:
  "sorted (map f xs) \<Longrightarrow> (\<And>x y. f x \<le> f y \<Longrightarrow> P y \<Longrightarrow> P x) \<Longrightarrow> takeWhile P xs = filter P xs"
  by (induction xs) (auto intro!: filter_False[symmetric])

lemma sorted_map_filter: "sorted (map f xs) \<Longrightarrow> sorted (map f (filter P xs))"
  by (induction xs) auto

text \<open>Stores whose events are all dated from 1970 on, in nanoseconds that fit.\<close>

definition well_dated ::
  "Libs \<Rightarrow> ('db \<Rightarrow> (key \<times> val) list) \<Rightarrow> 'db EventStore \<Rightarrow> bool" where
  "well_dated X contents s \<longleftrightarrow> (\<forall>e\<in>set (event_log X contents s). keyable (timestamp e))"

definition from_start :: "Libs \<Rightarrow> EventQuery \<Rightarrow> EventEnvelope list \<Rightarrow> EventEnvelope list" where
  "from_start X q es =
     (case q_start_time q of
        None \<Rightarrow> es
      | Some t \<Rightarrow> filter (\<lambda>e. generate_time_key_prefix X t \<le> generate_event_key X e) es)"

context event_store_env
begin

lemma log_decodes:
  assumes "store_wf X contents s"
  shows "decodes X (es_serializer s) (contents (es_db s)) (event_log X contents s)
    \<and> map (generate_event_key X) (event_log X contents s) = map fst (contents (es_db s))"
proof -
  have "\<forall>(k, v)\<in>set kvs. case deserialize X (es_serializer s) v of Inl _ \<Rightarrow> False
          | Inr e \<Rightarrow> generate_event_key X e = k \<Longrightarrow>
      decodes X (es_serializer s) kvs (List.map_filter (\<lambda>(k, v). decoded X (es_serializer s) v) kvs)
      \<and> map (generate_event_key X) (List.map_filter (\<lambda>(k, v). decoded X (es_serializer s) v) kvs)
          = map fst kvs" for kvs :: "(key \<times> val) list"
    by (induction kvs) (auto simp: map_filter_simps decoded_def split: sum.splits)
  then show ?thesis using assms by (simp add: store_wf_def event_log_def)
qed

lemma log_key_sorted:
  "store_wf X contents s \<Longrightarrow> sorted_wrt (<) (map (generate_event_key X) (event_log X contents s))"
  using log_decodes contents_sorted by simp

lemma set_event_log: "set (event_log X contents s) = ran (event_view X contents s)"
  by (force simp: event_log_def List.map_filter_def ran_def event_view_decoded
      map_of_contents_iff bind_eq_Some_conv)

lemma log_count:
  assumes "store_wf X contents s"
  shows "length (event_log X contents s) = card (dom (event_view X contents s))"
proof -
  have "dom (event_view X contents s) = set (map fst (contents (es_db s)))"
  proof (rule set_eqI)
    fix k
    show "k \<in> dom (event_view X contents s) \<longleftrightarrow> k \<in> set (map fst (contents (es_db s)))"
      unfolding domIff view_None_iff[OF assms] by (simp add: map_of_eq_None_iff)
  qed
  then have "card (dom (event_view X contents s)) = length (map fst (contents (es_db s)))"
    using distinct_card[OF key_sorted_distinct[OF contents_sorted[of "es_db s"]]] by simp
  also have "\<dots> = length (event_log X contents s)"
    using log_decodes[OF assms] by (metis length_map)
  finally show ?thesis by simp
qed

lemma log_time_sorted:
  assumes "store_wf X contents s" and "well_dated X contents s"
  shows "sorted (map timestamp (event_log X contents s))"
proof -
  have "sorted_wrt (\<lambda>d e. generate_event_key X d < generate_event_key X e) (event_log X contents s)"
    using log_key_sorted[OF assms(1)] by (simp add: sorted_wrt_map)
  then have "sorted_wrt (\<lambda>d e. timestamp d \<le> timestamp e) (event_log X contents s)"
    by (rule sorted_wrt_mono_rel[rotated])
      (use assms(2) in \<open>auto simp: well_dated_def event_key_less_iff nanos_less_keyable
          nanos_eq_keyable\<close>)
  then show ?thesis by (simp add: sorted_wrt_map)
qed

lemma query_items:
  assumes "store_wf X contents s" and "iterates R (es_db s) (query_mode X q)"
  shows "\<exists>kvs. db_iterator R (es_db s) (query_mode X q) = map Inr kvs
    \<and> decodes X (es_serializer s) kvs (from_start X q (event_log X contents s))"
proof (cases "q_start_time q")
  case None
  then show ?thesis
    using iterator_complete[OF assms(2)] log_decodes[OF assms(1)]
    by (auto simp: query_mode_def from_start_def)
next
  case (Some t)
  have key: "deserialize X (es_serializer s) v = Inr e \<Longrightarrow> (k, v) \<in> set (contents (es_db s)) \<Longrightarrow>
      generate_event_key X e = k" for k v e
    using assms(1) by (fastforce simp: store_wf_def)
  have "decodes X (es_serializer s)
      (filter (\<lambda>(k', v). generate_time_key_prefix X t \<le> k') (contents (es_db s)))
      (from_start X q (event_log X contents s))"
    unfolding from_start_def Some option.case
    by (rule decodes_filter) (use log_decodes[OF assms(1)] key in auto)
  then show ?thesis
    using iterator_complete[OF assms(2)] Some by (auto simp: query_mode_def)
qed

lemma query_events_eq:
  assumes "store_wf X contents s" and "iterates R (es_db s) (query_mode X q)"
  shows "query_events R X s q =
    (let evs = page q (filter (type_ok q) (takeWhile (end_ok q) (filter (account_ok q)
        (from_start X q (event_log X contents s)))))
     in Inr \<lparr>events = evs, total_count = None, has_more = (length evs = query_limit q)\<rparr>)"
proof -
  from query_items[OF assms] obtain kvs
    where "db_iterator R (es_db s) (query_mode X q) = map Inr kvs"
      "decodes X (es_serializer s) kvs (from_start X q (event_log X contents s))" by blast
  with query_loop_decodes[of X "es_serializer s" kvs _ 0 "query_offset q" "[]"]
  show ?thesis by (simp add: query_events_def page_def Let_def)
qed

lemma nanos_reached:
  assumes "keyable u"
  shows "nanos_u64 X t \<le> nanos_u64 X u \<longleftrightarrow> \<not> in_i64 t \<or> 0 \<le> t \<and> t \<le> u"
proof -
  consider "\<not> in_i64 t" | "keyable t" | "in_i64 t" "t < 0"
    by (metis keyable_def in_i64_def linorder_not_less)
  then show ?thesis
  proof cases
    case 1
    then show ?thesis by (simp add: nanos_u64_eq)
  next
    case 2
    with assms show ?thesis
      by (auto simp: nanos_le_keyable) (auto simp: keyable_def in_i64_def i64_min_def)
  next
    case 3
    then have "i64_max < uint (nanos_u64 X t)"
      by (simp add: uint_nanos_negative) (simp add: in_i64_def i64_min_def i64_max_def)
    with 3 assms show ?thesis
      by (simp add: word_le_def uint_nanos_keyable) (simp add: keyable_def)
  qed
qed

lemma query_events_reached:
  assumes wf: "store_wf X contents s" and it: "iterates R (es_db s) (query_mode X q)"
    and dated: "well_dated X contents s"
  shows "query_events R X s q =
    (let hits = filter (\<lambda>e. account_ok q e \<and> start_reached q e \<and> end_ok q e \<and> type_ok q e)
        (event_log X contents s)
     in Inr \<lparr>events = page q hits, total_count = None,
          has_more = (query_limit q \<le> length hits - query_offset q)\<rparr>)"
proof -
  let ?log = "event_log X contents s"
  have start: "from_start X q ?log = filter (start_reached q) ?log"
    using dated
    by (auto simp: from_start_def start_reached_def well_dated_def time_prefix_le_iff nanos_reached
        split: option.splits intro!: filter_cong)
  have "sorted (map timestamp (filter (account_ok q) (filter (start_reached q) ?log)))"
    using log_time_sorted[OF wf dated] by (intro sorted_map_filter)
  then have "takeWhile (end_ok q) (filter (account_ok q) (filter (start_reached q) ?log)) =
      filter (end_ok q) (filter (account_ok q) (filter (start_reached q) ?log))"
    by (rule sorted_takeWhile_filter) (auto simp: end_ok_def)
  then have "filter (type_ok q) (takeWhile (end_ok q) (filter (account_ok q) (from_start X q ?log)))
      = filter (\<lambda>e. account_ok q e \<and> start_reached q e \<and> end_ok q e \<and> type_ok q e) ?log"
    unfolding start by (simp add: conj_ac cong: filter_cong)
  moreover have "length (take l (drop m xs)) = l \<longleftrightarrow> l \<le> length xs - m" for l m and xs :: "EventEnvelope list"
    by auto
  ultimately show ?thesis by (simp add: query_events_eq[OF wf it] page_def Let_def)
qed

lemma query_events_dated:
  assumes "store_wf X contents s" and "iterates R (es_db s) (query_mode X q)"
    and "well_dated X contents s" and "\<forall>t. q_start_time q = Some t \<longrightarrow> keyable t"
  shows "query_events R X s q =
    (let hits = filter (\<lambda>e. account_ok q e \<and> start_ok q e \<and> end_ok q e \<and> type_ok q e)
        (event_log X contents s)
     in Inr \<lparr>events = page q hits, total_count = None,
          has_more = (query_limit q \<le> length hits - query_offset q)\<rparr>)"
  using query_events_reached[OF assms(1-3)] by (simp add: start_reached_keyable[OF assms(4)])

lemma start_iterator:
  assumes "store_wf X contents s" and "iterates R (es_db s) Start"
  shows "\<exists>kvs. db_iterator R (es_db s) Start = map Inr kvs
    \<and> decodes X (es_serializer s) kvs (event_log X contents s)"
  using iterator_complete[OF assms(2)] log_decodes[OF assms(1)] by auto

lemma end_iterator:
  assumes "store_wf X contents s" and "iterates R (es_db s) End"
  shows "\<exists>kvs. db_iterator R (es_db s) End = map Inr kvs
    \<and> decodes X (es_serializer s) kvs (rev (event_log X contents s))"
  using iterator_complete[OF assms(2)] log_decodes[OF assms(1)] by (auto intro: decodes_rev)

lemma get_latest_eq:
  assumes "store_wf X contents s" and "iterates R (es_db s) End"
  shows "get_latest_events R X s n = Inr (drop (length (event_log X contents s) - n) (event_log X contents s))"
proof -
  from end_iterator[OF assms] obtain kvs where
    "db_iterator R (es_db s) End = map Inr kvs"
    "decodes X (es_serializer s) kvs (rev (event_log X contents s))" by blast
  then show ?thesis
    using collect_events_decodes[OF decodes_take, of X "es_serializer s" kvs _ n "[]"]
    by (simp add: get_latest_events_def take_map rev_take)
qed

lemma get_event_eq:
  assumes "store_wf X contents s" and "iterates R (es_db s) Start"
  shows "get_event R X s i = Inr (find (\<lambda>e. event_id e = i) (event_log X contents s))"
  using start_iterator[OF assms] by (auto simp: get_event_def find_event_decodes)

lemma get_statistics_eq:
  assumes "store_wf X contents s" and "iterates R (es_db s) Start"
  shows "get_statistics R X s = Inr \<lparr>total_events = length (event_log X contents s),
    oldest_event = opt_min None (map timestamp (event_log X contents s)),
    newest_event = opt_max None (map timestamp (event_log X contents s)),
    database_size_bytes = 0\<rparr>"
  using start_iterator[OF assms]
  by (auto simp: get_statistics_def get_database_size_def statistics_decodes)

end

section \<open>A filled in-memory store\<close>

definition three_libs :: Libs where
  "three_libs = table_libs [root_event 1 5, root_event 2 6, root_event 3 7]"

definition filled :: "ram EventStore" where
  "filled =
     \<lparr>es_db = [(generate_event_key three_libs (root_event 2 6), [4, 1]),
               (generate_event_key three_libs (root_event 3 7), [4, 2]),
               (generate_event_key three_libs (root_event 1 5), [4, 0])],
      es_serializer = serializer_new True, es_config = config_default\<rparr>"

lemma three_env: "event_store_env ram_db ram_contents three_libs"
  unfolding three_libs_def by (rule demo_env)

lemma nanos_three: "nanos_u64 three_libs t = (if in_i64 t then word_of_int t else 0)"
  unfolding three_libs_def by (rule table.nanos_u64_eq)

lemma small_instants [simp]: "in_i64 5" "in_i64 6" "in_i64 7" "keyable 5" "keyable 6" "keyable 7"
  by (simp_all add: in_i64_def i64_min_def i64_max_def keyable_def)

lemma filled_contents: "ram_contents (es_db filled) =
   [(generate_event_key three_libs (root_event 1 5), [4, 0]),
    (generate_event_key three_libs (root_event 2 6), [4, 1]),
    (generate_event_key three_libs (root_event 3 7), [4, 2])]"
  by (simp add: filled_def event_key_eq_iff event_key_less_iff nanos_three)

lemma filled_decode:
  "deserialize three_libs (es_serializer filled) [4, 0] = Inr (root_event 1 5)"
  "deserialize three_libs (es_serializer filled) [4, 1] = Inr (root_event 2 6)"
  "deserialize three_libs (es_serializer filled) [4, 2] = Inr (root_event 3 7)"
  by (simp_all add: filled_def three_libs_def table_simps)

lemma filled_log: "event_log three_libs ram_contents filled = [root_event 1 5, root_event 2 6, root_event 3 7]"
  by (simp add: event_log_def filled_contents map_filter_simps decoded_def filled_decode)

lemma filled_wf: "store_wf three_libs ram_contents filled"
  by (simp add: store_wf_def filled_contents filled_decode)

lemma filled_dated: "well_dated three_libs ram_contents filled"
  by (simp add: well_dated_def filled_log)

lemma ram_iterates: "iterates ram_db d mode"
  by (auto simp: iterates_def ram_db_def)

section \<open>Properties\<close>

text \<open>C6: On a readable, well-formed store whose events are all dated from 1970 on, every query is a
  selection: it succeeds with the page it asks for, out of the events (in key order, so in the order
  of time) that satisfy its account, end and type filters and that its start reaches. \<open>has_more\<close> says
  that the page is full, which is also so when the page ends with the last match. A start from 1970 on
  (to 2262, where the nanoseconds fit) reaches exactly the events that are not before it. A start
  before 1970 (from 1677 on) reaches none, so that the query returns nothing although every event
  satisfies its filter; a start outside these years reaches every event.\<close>

theorem query_events_selects:
  assumes "event_store_env R contents X" and "store_wf X contents s"
    and "iterates R (es_db s) (query_mode X q)" and "well_dated X contents s"
  shows "query_events R X s q =
    (let hits = filter (\<lambda>e. account_ok q e \<and> start_reached q e \<and> end_ok q e \<and> type_ok q e)
        (event_log X contents s)
     in Ok \<lparr>events = page q hits, total_count = None,
          has_more = (query_limit q \<le> length hits - query_offset q)\<rparr>)
    \<and> ((\<forall>t. q_start_time q = Some t \<longrightarrow> keyable t) \<longrightarrow> start_reached q = start_ok q)
    \<and> ((\<forall>t. q_start_time q = Some t \<longrightarrow> \<not> in_i64 t) \<longrightarrow> start_reached q = (\<lambda>e. True))
    \<and> (\<forall>t. q_start_time q = Some t \<and> in_i64 t \<and> t < 0 \<longrightarrow>
        query_events R X s q =
          Ok \<lparr>events = [], total_count = None, has_more = (query_limit q = 0)\<rparr>
        \<and> filter (start_ok q) (event_log X contents s) = event_log X contents s)"
proof -
  note selected = event_store_env.query_events_reached[OF assms]
  have early: "query_events R X s q = Ok \<lparr>events = [], total_count = None, has_more = (query_limit q = 0)\<rparr>
      \<and> filter (start_ok q) (event_log X contents s) = event_log X contents s"
    if "q_start_time q = Some t \<and> in_i64 t \<and> t < 0" for t
    using that selected assms(4) start_reached_early[of q t]
    by (auto simp: page_def well_dated_def keyable_def start_ok_def intro!: filter_True)
  show ?thesis
  proof (intro conjI allI impI)
    fix t assume "q_start_time q = Some t \<and> in_i64 t \<and> t < 0"
    from early[OF this] show "query_events R X s q =
        Ok \<lparr>events = [], total_count = None, has_more = (query_limit q = 0)\<rparr>"
      and "filter (start_ok q) (event_log X contents s) = event_log X contents s" by blast+
  qed (use selected start_reached_keyable in \<open>auto simp: start_reached_def\<close>)
qed

theorem query_events_selects_witness:
  "query_events ram_db three_libs filled
     (query_all\<lparr>q_start_time := Some 6, q_end_time := Some 7, q_limit := Some 1, q_offset := Some 1\<rparr>)
   = Ok \<lparr>events = [root_event 3 7], total_count = None, has_more = True\<rparr>
   \<and> query_events ram_db three_libs filled (query_all\<lparr>q_start_time := Some (- 1)\<rparr>)
   = Ok \<lparr>events = [], total_count = None, has_more = False\<rparr>"
  using query_events_selects[OF three_env filled_wf ram_iterates filled_dated,
      of "query_all\<lparr>q_start_time := Some 6, q_end_time := Some 7, q_limit := Some 1, q_offset := Some 1\<rparr>"]
    query_events_selects[OF three_env filled_wf ram_iterates filled_dated,
      of "query_all\<lparr>q_start_time := Some (- 1)\<rparr>"]
  by (simp add: query_all_def filled_log account_ok_def start_reached_def end_ok_def type_ok_def
      page_def query_limit_def query_offset_def in_i64_def i64_min_def i64_max_def)

text \<open>Without the assumption on dates, and whatever the query: a query walks the events from
  its start prefix on, stops for good at the first event of its account dated after its end, and
  filters by type after that. (An event dated before 1970 comes last in key order, so an end time
  can hide it.)\<close>

theorem query_events_walks:
  assumes "event_store_env R contents X" and "store_wf X contents s"
    and "iterates R (es_db s) (query_mode X q)"
  shows "query_events R X s q =
    (let evs = page q (filter (type_ok q) (takeWhile (end_ok q) (filter (account_ok q)
        (from_start X q (event_log X contents s)))))
     in Ok \<lparr>events = evs, total_count = None, has_more = (length evs = query_limit q)\<rparr>)"
  using assms by (rule event_store_env.query_events_eq)

theorem query_events_walks_witness:
  "query_events ram_db three_libs filled (query_all\<lparr>q_end_time := Some 5\<rparr>)
   = Ok \<lparr>events = [root_event 1 5], total_count = None, has_more = False\<rparr>"
  using query_events_walks[OF three_env filled_wf ram_iterates, of "query_all\<lparr>q_end_time := Some 5\<rparr>"]
  by (simp add: query_all_def filled_log account_ok_def end_ok_def type_ok_def from_start_def
      page_def query_limit_def query_offset_def)

text \<open>\<open>get_account_events\<close> returns the events that concern the account, oldest key first,
  and at most the first 1000 of them; \<open>get_events_in_range\<close> the events of the closed interval,
  the first 1000 likewise.\<close>

theorem account_and_range_lookups:
  assumes "event_store_env R contents X" and "store_wf X contents s"
    and "\<forall>mode. iterates R (es_db s) mode" and "well_dated X contents s" and "keyable t0"
  shows "get_account_events R X s a =
      Ok (take 1000 (filter (\<lambda>e. event_matches_account e a) (event_log X contents s)))
    \<and> get_events_in_range R X s t0 t1 =
      Ok (take 1000 (filter (\<lambda>e. t0 \<le> timestamp e \<and> timestamp e \<le> t1) (event_log X contents s)))"
  using event_store_env.query_events_dated[OF assms(1,2) _ assms(4), of "query_all\<lparr>q_account_id := Some a\<rparr>"]
    event_store_env.query_events_dated[OF assms(1,2) _ assms(4),
      of "query_all\<lparr>q_start_time := Some t0, q_end_time := Some t1\<rparr>"] assms(3,5)
  by (simp add: get_account_events_def get_events_in_range_def query_all_def account_ok_def
      start_ok_def end_ok_def type_ok_def page_def query_limit_def query_offset_def Let_def)

theorem account_and_range_lookups_witness:
  "get_events_in_range ram_db three_libs filled 5 6 = Ok [root_event 1 5, root_event 2 6]"
  using account_and_range_lookups[OF three_env filled_wf, of 5 "AccountId 0" 6]
  by (simp add: ram_iterates filled_dated filled_log)



text \<open>C31: A lookup by identifier finds the first stored event with it, if there is one, and the
  statistics count the stored events and give their earliest and latest instants.\<close>

theorem lookup_and_statistics:
  assumes "event_store_env R contents X" and "store_wf X contents s" and "iterates R (es_db s) Start"
  shows "get_event R X s i = Ok (find (\<lambda>e. event_id e = i) (event_log X contents s))
    \<and> (\<exists>st. get_statistics R X s = Ok st
        \<and> total_events st = card (dom (event_view X contents s))
        \<and> (if event_log X contents s = [] then oldest_event st = None \<and> newest_event st = None
           else oldest_event st = Some (Min (timestamp ` ran (event_view X contents s)))
              \<and> newest_event st = Some (Max (timestamp ` ran (event_view X contents s)))))"
proof -
  have "length (event_log X contents s) = card (dom (event_view X contents s))"
    by (rule event_store_env.log_count[OF assms(1,2)])
  moreover have "event_log X contents s \<noteq> [] \<Longrightarrow>
      opt_min None (map timestamp (event_log X contents s)) =
        Some (Min (timestamp ` ran (event_view X contents s)))
      \<and> opt_max None (map timestamp (event_log X contents s)) =
        Some (Max (timestamp ` ran (event_view X contents s)))"
    unfolding event_store_env.set_event_log[OF assms(1), symmetric]
    by (cases "event_log X contents s") (simp_all add: opt_min_Min opt_max_Max)
  ultimately show ?thesis
    using event_store_env.get_event_eq[OF assms] event_store_env.get_statistics_eq[OF assms] by auto
qed

theorem lookup_and_statistics_witness:
  "get_event ram_db three_libs filled (EventId 2) = Ok (Some (root_event 2 6))"
  using lookup_and_statistics[OF three_env filled_wf ram_iterates, of "EventId 2"]
  by (simp add: filled_log)

end
