(* ===== verification/QueryClient.thy ===== *)
theory QueryClient
  imports EventQueries
begin

text \<open>
  A client of \<^verbatim>\<open>query_events\<close> that reads a result page by page: it asks for \<open>limit\<close> events from
  \<open>offset\<close> on, and goes on behind them for as long as the reply says that there is more. The client
  is not part of the program; it says what the pages and \<open>has_more\<close> amount to together. The fuel is
  the number of requests it may make; running out of it is kept apart from an error in a reply.
\<close>

datatype paging = Complete "EventEnvelope list" | Failed EventStoreError | OutOfFuel

fun prepend_page :: "EventEnvelope list \<Rightarrow> paging \<Rightarrow> paging" where
  "prepend_page es (Complete fs) = Complete (es @ fs)"
| "prepend_page es p = p"

fun page_client ::
  "'db RocksDB \<Rightarrow> Libs \<Rightarrow> 'db EventStore \<Rightarrow> EventQuery \<Rightarrow> nat \<Rightarrow> nat \<Rightarrow> nat \<Rightarrow> paging"
where
  "page_client R X s q limit 0 offset = OutOfFuel"
| "page_client R X s q limit (Suc fuel) offset =
     (case query_events R X s (q\<lparr>q_limit := Some limit, q_offset := Some offset\<rparr>) of
        Inl err \<Rightarrow> Failed err
      | Inr r \<Rightarrow>
          (if has_more r
           then prepend_page (events r) (page_client R X s q limit fuel (offset + limit))
           else Complete (events r)))"

lemma page_filters [simp]:
  "query_mode X (q\<lparr>q_limit := l, q_offset := n\<rparr>) = query_mode X q"
  "account_ok (q\<lparr>q_limit := l, q_offset := n\<rparr>) = account_ok q"
  "start_reached (q\<lparr>q_limit := l, q_offset := n\<rparr>) = start_reached q"
  "end_ok (q\<lparr>q_limit := l, q_offset := n\<rparr>) = end_ok q"
  "type_ok (q\<lparr>q_limit := l, q_offset := n\<rparr>) = type_ok q"
  by (simp_all add: query_mode_def account_ok_def[abs_def] start_reached_def[abs_def] end_ok_def[abs_def]
      type_ok_def[abs_def])

text \<open>The events a query selects, out of those stored.\<close>

definition selected ::
  "Libs \<Rightarrow> ('db \<Rightarrow> (key \<times> val) list) \<Rightarrow> 'db EventStore \<Rightarrow> EventQuery \<Rightarrow> EventEnvelope list" where
  "selected X contents s q =
     filter (\<lambda>e. account_ok q e \<and> start_reached q e \<and> end_ok q e \<and> type_ok q e) (event_log X contents s)"

context event_store_env
begin

lemma page_query:
  assumes "store_wf X contents s" and "iterates R (es_db s) (query_mode X q)"
    and "well_dated X contents s"
  shows "query_events R X s (q\<lparr>q_limit := Some limit, q_offset := Some offset\<rparr>) =
    Inr \<lparr>events = take limit (drop offset (selected X contents s q)), total_count = None,
      has_more = (limit \<le> length (selected X contents s q) - offset)\<rparr>"
  using query_events_reached[of s "q\<lparr>q_limit := Some limit, q_offset := Some offset\<rparr>"] assms
  by (simp add: selected_def page_def query_limit_def query_offset_def Let_def)

lemma page_client_drop:
  assumes "store_wf X contents s" and "iterates R (es_db s) (query_mode X q)"
    and "well_dated X contents s" and "0 < limit"
  shows "page_client R X s q limit fuel offset =
    (if (length (selected X contents s q) - offset) div limit < fuel
     then Complete (drop offset (selected X contents s q)) else OutOfFuel)"
proof (induction fuel arbitrary: offset)
  case (Suc fuel)
  let ?hits = "selected X contents s q"
  show ?case
  proof (cases "limit \<le> length ?hits - offset")
    case True
    then have "(length ?hits - offset) div limit = Suc ((length ?hits - (offset + limit)) div limit)"
      using assms(4) by (simp add: le_div_geq)
    moreover have "take limit (drop offset ?hits) @ drop (offset + limit) ?hits = drop offset ?hits"
      by (metis append_take_drop_id drop_drop add.commute)
    ultimately show ?thesis
      using True Suc.IH[of "offset + limit"] by (simp add: page_query[OF assms(1-3)])
  next
    case False
    then show ?thesis by (simp add: page_query[OF assms(1-3)])
  qed
qed simp

lemma page_client_stuck:
  assumes "store_wf X contents s" and "iterates R (es_db s) (query_mode X q)"
    and "well_dated X contents s"
  shows "page_client R X s q 0 fuel offset = OutOfFuel"
  by (induction fuel arbitrary: offset) (simp_all add: page_query[OF assms])

end

declare page_client.simps(2) [simp del]

section \<open>Properties\<close>

text \<open>C9: Paging is complete, on a readable and well-formed store whose events are dated from 1970 on. A
  client that follows \<^verbatim>\<open>has_more\<close> with pages of any size but zero is done after exactly one request
  more than there are full pages, and not before; it meets no error, and it has every event that
  matches the account, the end and the types of the query and that its start reaches, once and in the
  order of time. With pages of size zero no reply is an error, every reply is empty and says that there
  is more, and the client runs out of any number of requests.\<close>

theorem paged_query_complete:
  assumes "event_store_env R contents X" and "store_wf X contents s"
    and "iterates R (es_db s) (query_mode X q)" and "well_dated X contents s" and "0 < limit"
  shows "(let hits = filter (\<lambda>e. account_ok q e \<and> start_reached q e \<and> end_ok q e \<and> type_ok q e)
        (event_log X contents s)
     in (\<forall>fuel. page_client R X s q limit fuel 0 =
           (if length hits div limit + 1 \<le> fuel then Complete hits else OutOfFuel))
        \<and> sorted (map timestamp hits))
    \<and> (\<forall>offset. query_events R X s (q\<lparr>q_limit := Some 0, q_offset := Some offset\<rparr>) =
          Ok \<lparr>events = [], total_count = None, has_more = True\<rparr>)
    \<and> (\<forall>fuel offset. page_client R X s q 0 fuel offset = OutOfFuel)"
proof -
  have "sorted (map timestamp (selected X contents s q))"
    unfolding selected_def
    using event_store_env.log_time_sorted[OF assms(1,2,4)] by (intro sorted_map_filter)
  with event_store_env.page_client_drop[OF assms, of _ 0] event_store_env.page_client_stuck[OF assms(1-4)]
    event_store_env.page_query[OF assms(1-4), where limit = 0]
  show ?thesis unfolding selected_def[symmetric] Let_def by (simp add: Suc_le_eq)
qed

theorem paged_query_complete_witness:
  "page_client ram_db three_libs filled query_all 2 2 0 =
     Complete [root_event 1 5, root_event 2 6, root_event 3 7]
   \<and> page_client ram_db three_libs filled query_all 2 1 0 = OutOfFuel
   \<and> page_client ram_db three_libs filled query_all 0 100 0 = OutOfFuel"
proof -
  have hits: "filter (\<lambda>e. account_ok query_all e \<and> start_reached query_all e \<and> end_ok query_all e
        \<and> type_ok query_all e) (event_log three_libs ram_contents filled)
      = [root_event 1 5, root_event 2 6, root_event 3 7]"
    by (simp add: query_all_def filled_log account_ok_def start_reached_def end_ok_def type_ok_def)
  have pages: "length [root_event 1 5, root_event 2 6, root_event 3 7] div 2 + 1 = 2" by simp
  from paged_query_complete[OF three_env filled_wf ram_iterates filled_dated, of 2 query_all]
  show ?thesis unfolding hits Let_def pages by simp
qed

end
