(* ===== verification/F64.thy ===== *)
theory F64
  imports LedgerPrelude Complex_Main "HOL-Library.Log_Nat"
begin

text \<open>
  The \<^verbatim>\<open>f64\<close> arithmetic of the batch metrics: IEEE binary64 with rounding to nearest, ties to
  even, restricted to the non-negative values, infinity and NaN included, which are all the code
  computes with. A finite value is its rational; every operation is the exact one, rounded.
\<close>

datatype f64 = Fin rat | Infinity | NaN

definition pow2 :: "int \<Rightarrow> rat" where
  "pow2 e = (if 0 \<le> e then 2 ^ nat e else 1 / 2 ^ nat (- e))"

text \<open>The exponent of a positive rational: \<open>2 ^ e \<le> x < 2 ^ (e + 1)\<close>.\<close>

definition rat_exponent :: "rat \<Rightarrow> int" where
  "rat_exponent x =
     (let (p, q) = quotient_of x;
          k = int (floorlog 2 (nat p)) - int (floorlog 2 (nat q))
      in if pow2 k \<le> x then k else k - 1)"

definition round_half_even :: "rat \<Rightarrow> int" where
  "round_half_even x =
     (let n = \<lfloor>x\<rfloor>; r = x - of_int n in
      if r < 1 / 2 then n else if r > 1 / 2 then n + 1 else if even n then n else n + 1)"

text \<open>Rounding to 53 significant bits; the smallest subnormal is \<open>2 ^ -1074\<close>.\<close>

definition f64_round :: "rat \<Rightarrow> f64" where
  "f64_round x =
     (if x = 0 then Fin 0
      else let ulp = pow2 (max (rat_exponent x - 52) (- 1074));
               r = of_int (round_half_even (x / ulp)) * ulp
           in if r \<ge> 2 ^ 1024 then Infinity else Fin r)"

definition f64_of_nat :: "nat \<Rightarrow> f64" where
  "f64_of_nat n = f64_round (rat_of_nat n)"

fun f64_add :: "f64 \<Rightarrow> f64 \<Rightarrow> f64" where
  "f64_add (Fin x) (Fin y) = f64_round (x + y)"
| "f64_add NaN y = NaN"
| "f64_add x NaN = NaN"
| "f64_add x y = Infinity"

fun f64_mul :: "f64 \<Rightarrow> f64 \<Rightarrow> f64" where
  "f64_mul (Fin x) (Fin y) = f64_round (x * y)"
| "f64_mul NaN y = NaN"
| "f64_mul x NaN = NaN"
| "f64_mul (Fin x) Infinity = (if x = 0 then NaN else Infinity)"
| "f64_mul Infinity (Fin y) = (if y = 0 then NaN else Infinity)"
| "f64_mul Infinity Infinity = Infinity"

fun f64_div :: "f64 \<Rightarrow> f64 \<Rightarrow> f64" where
  "f64_div (Fin x) (Fin y) = (if y \<noteq> 0 then f64_round (x / y) else if x = 0 then NaN else Infinity)"
| "f64_div NaN y = NaN"
| "f64_div x NaN = NaN"
| "f64_div (Fin x) Infinity = Fin 0"
| "f64_div Infinity (Fin y) = Infinity"
| "f64_div Infinity Infinity = NaN"

fun f64_gt :: "f64 \<Rightarrow> f64 \<Rightarrow> bool" where
  "f64_gt (Fin x) (Fin y) \<longleftrightarrow> x > y"
| "f64_gt Infinity (Fin y) \<longleftrightarrow> True"
| "f64_gt x y \<longleftrightarrow> False"

text \<open>\<^verbatim>\<open>as u64\<close> truncates and saturates, and takes NaN to 0.\<close>

fun f64_to_u64 :: "f64 \<Rightarrow> u64" where
  "f64_to_u64 (Fin x) = word_of_int (min \<lfloor>x\<rfloor> (2 ^ 64 - 1))"
| "f64_to_u64 Infinity = - 1"
| "f64_to_u64 NaN = 0"

text \<open>\<^verbatim>\<open>Duration::as_secs_f64\<close>, of a duration in nanoseconds.\<close>

definition as_secs_f64 :: "nat \<Rightarrow> f64" where
  "as_secs_f64 d =
     f64_add (f64_of_nat (d div 1000000000))
       (f64_div (f64_of_nat (d mod 1000000000)) (Fin 1000000000))"

section \<open>Numbers that need no rounding\<close>

lemma pow2_pos: "0 < pow2 e"
  by (simp add: pow2_def)

lemma pow2_half: "0 \<le> j \<Longrightarrow> rat_of_nat n / pow2 (- j) = of_int (int n * 2 ^ nat j)"
  by (auto simp: pow2_def)

lemma round_half_even_int [simp]: "round_half_even (of_int n) = n"
  by (simp add: round_half_even_def Let_def)

lemma rat_exponent_nat:
  assumes "0 < n"
  shows "rat_exponent (of_nat n) = int (floorlog 2 n) - 1"
proof -
  have q: "quotient_of (rat_of_nat n) = (int n, 1)"
    using quotient_of_int[of "int n"] by simp
  have l: "floorlog 2 (Suc 0) = 1" by (simp add: floorlog_def)
  have f: "1 \<le> floorlog 2 n" using assms by (simp add: floorlog_def)
  then have "2 ^ (floorlog 2 n - 1) \<le> n"
    using floorlog_bounds[of n 2] assms by simp
  then have "rat_of_nat (2 ^ (floorlog 2 n - 1)) \<le> of_nat n" by (simp only: of_nat_le_iff)
  then show ?thesis
    using f by (auto simp: rat_exponent_def q l pow2_def Let_def nat_diff_distrib)
qed

text \<open>Halves of integers below \<open>2 ^ 53\<close> are values, and so are those integers.\<close>

lemma f64_round_exact:
  assumes "0 < x" and "rat_exponent x \<le> 53" and "- 1022 \<le> rat_exponent x"
    and "x / pow2 (rat_exponent x - 52) = of_int m" and "x < 2 ^ 1024"
  shows "f64_round x = Fin x"
proof -
  let ?u = "pow2 (rat_exponent x - 52)"
  have "max (rat_exponent x - 52) (- 1074) = rat_exponent x - 52" using assms(3) by simp
  moreover have "of_int m * ?u = x"
    using assms(4) pow2_pos[of "rat_exponent x - 52"] by (simp add: field_simps)
  ultimately show ?thesis
    using assms(1,4,5) by (simp add: f64_round_def Let_def)
qed

lemma f64_of_nat_exact:
  assumes "n < 2 ^ 53"
  shows "f64_of_nat n = Fin (of_nat n)"
proof (cases "n = 0")
  case True
  then show ?thesis by (simp add: f64_of_nat_def f64_round_def)
next
  case False
  then have e: "rat_exponent (of_nat n) = int (floorlog 2 n) - 1" by (simp add: rat_exponent_nat)
  have l: "floorlog 2 n \<le> 53" using assms by (intro floorlog_leI) auto
  have "x < 2 ^ 53 \<Longrightarrow> x < (2::rat) ^ 1024" for x
    by (rule less_trans) (auto intro: power_strict_increasing)
  moreover have "rat_of_nat n < 2 ^ 53" using assms by (metis of_nat_less_iff of_nat_numeral of_nat_power)
  ultimately have "f64_round (of_nat n) = Fin (of_nat n)"
    using pow2_half[of "53 - int (floorlog 2 n)" n] l False
    by (intro f64_round_exact[where m = "int n * 2 ^ nat (53 - int (floorlog 2 n))"])
      (simp_all add: e)
  then show ?thesis by (simp add: f64_of_nat_def)
qed

lemma f64_round_zero [simp]: "f64_round 0 = Fin 0"
  by (simp add: f64_round_def)

section \<open>The exponent\<close>

lemma pow2_powi: "pow2 e = 2 powi e"
  by (simp add: pow2_def power_int_def power_divide inverse_eq_divide)

lemma pow2_add: "pow2 (d + e) = pow2 d * pow2 e"
  by (simp add: pow2_powi power_int_add)

lemma pow2_mono: "d \<le> e \<Longrightarrow> pow2 d \<le> pow2 e"
  by (simp add: pow2_powi power_int_increasing)

lemma rat_exponent_bounds:
  assumes "0 < x"
  shows "pow2 (rat_exponent x) \<le> x \<and> x < pow2 (rat_exponent x + 1)"
proof -
  obtain p q where pq: "quotient_of x = (p, q)" by (cases "quotient_of x")
  have q: "0 < q" and x: "x = of_int p / of_int q"
    using pq by (simp_all add: quotient_of_denom_pos quotient_of_div)
  with assms have p: "0 < p" by (simp add: zero_less_divide_iff)
  let ?P = "floorlog 2 (nat p)" and ?Q = "floorlog 2 (nat q)"
  have bounds: "pow2 (int (floorlog 2 (nat y)) - 1) \<le> of_int y
      \<and> of_int y < pow2 (int (floorlog 2 (nat y)))" if y: "0 < y" for y
  proof -
    have "2 ^ (floorlog 2 (nat y) - 1) \<le> nat y" "nat y < 2 ^ floorlog 2 (nat y)"
      using floorlog_bounds[of "nat y" 2] y by simp_all
    then have "rat_of_nat (2 ^ (floorlog 2 (nat y) - 1)) \<le> of_nat (nat y)"
      "rat_of_nat (nat y) < of_nat (2 ^ floorlog 2 (nat y))"
      by (simp_all only: of_nat_le_iff of_nat_less_iff)
    moreover have "1 \<le> floorlog 2 (nat y)" using y by (simp add: floorlog_def)
    ultimately show ?thesis using y by (simp add: pow2_def nat_diff_distrib)
  qed
  have bp: "pow2 (int ?P - 1) \<le> of_int p" "of_int p < pow2 (int ?P)"
    and bq: "pow2 (int ?Q - 1) \<le> of_int q" "of_int q < pow2 (int ?Q)"
    using bounds[OF p] bounds[OF q] by auto
  let ?k = "int ?P - int ?Q"
  have "of_int p < pow2 (?k + 1) * of_int q"
  proof -
    have "of_int p < pow2 (?k + 1) * pow2 (int ?Q - 1)" using bp(2) by (simp flip: pow2_add)
    also have "\<dots> \<le> pow2 (?k + 1) * of_int q" using bq(1) pow2_pos by (simp add: less_imp_le)
    finally show ?thesis .
  qed
  then have up: "x < pow2 (?k + 1)" using q by (simp add: x pos_divide_less_eq)
  have "pow2 (?k - 1) * of_int q \<le> of_int p"
  proof -
    have "pow2 (?k - 1) * of_int q \<le> pow2 (?k - 1) * pow2 (int ?Q)" using bq(2) pow2_pos by (simp add: less_imp_le)
    also have "\<dots> = pow2 (int ?P - 1)" by (simp flip: pow2_add)
    also have "\<dots> \<le> of_int p" by (rule bp)
    finally show ?thesis .
  qed
  then have low: "pow2 (?k - 1) \<le> x" using q by (simp add: x pos_le_divide_eq)
  show ?thesis
    using up low by (auto simp: rat_exponent_def pq Let_def not_le)
qed

lemma rat_exponent_unique:
  assumes "pow2 e \<le> x" and "x < pow2 (e + 1)"
  shows "rat_exponent x = e"
proof -
  have "0 < x" using assms(1) pow2_pos[of e] by simp
  from rat_exponent_bounds[OF this] assms
  have "pow2 (rat_exponent x) < pow2 (e + 1)" "pow2 e < pow2 (rat_exponent x + 1)" by auto
  then have "\<not> e + 1 \<le> rat_exponent x" "\<not> rat_exponent x + 1 \<le> e"
    using pow2_mono[of "e + 1" "rat_exponent x"] pow2_mono[of "rat_exponent x + 1" e]
    by (meson leD)+
  then show ?thesis by simp
qed

lemma f64_half_exact:
  assumes "n < 2 ^ 53"
  shows "f64_round (of_nat n / 2) = Fin (of_nat n / 2)"
proof (cases "n = 0")
  case False
  let ?e = "rat_exponent (of_nat n)"
  have e: "?e = int (floorlog 2 n) - 1" using False by (simp add: rat_exponent_nat)
  have l: "floorlog 2 n \<le> 53" using assms by (intro floorlog_leI) auto
  have f: "1 \<le> floorlog 2 n" using False by (simp add: floorlog_def)
  have b: "pow2 ?e \<le> of_nat n" "rat_of_nat n < pow2 (?e + 1)"
    using rat_exponent_bounds[of "of_nat n"] False by auto
  have half: "rat_exponent (of_nat n / 2) = ?e - 1"
    by (rule rat_exponent_unique) (use b pow2_add[of "?e - 1" 1] pow2_add[of ?e 1] in
      \<open>simp_all add: pow2_def[of 1]\<close>)
  have "of_nat n / 2 / pow2 (?e - 1 - 52) = of_nat n / pow2 (?e - 52)"
    using pow2_add[of "?e - 1 - 52" 1] by (simp add: pow2_def[of 1] field_simps)
  also have "\<dots> = of_int (int n * 2 ^ nat (53 - int (floorlog 2 n)))"
    using pow2_half[of "53 - int (floorlog 2 n)" n] l by (simp add: e)
  finally have scaled: "of_nat n / 2 / pow2 (?e - 1 - 52)
      = rat_of_int (int n * 2 ^ nat (53 - int (floorlog 2 n)))" .
  have "x < 2 ^ 53 \<Longrightarrow> x < (2::rat) ^ 1024" for x
    by (rule less_trans) (auto intro: power_strict_increasing)
  moreover have "rat_of_nat n < 2 ^ 53" using assms by (metis of_nat_less_iff of_nat_numeral of_nat_power)
  ultimately have small: "rat_of_nat n / 2 < 2 ^ 1024"
    by (metis divide_less_eq_numeral1(1) less_trans mult_2_right less_add_same_cancel1 of_nat_0_less_iff False gr0I)
  show ?thesis
    by (rule f64_round_exact[OF _ _ _ scaled[folded half] small]) (use False half e l f in simp_all)
qed (simp add: f64_round_def)

end
