(* ===== verification/Batch.thy ===== *)
theory Batch
  imports EventQueries F64
begin

text \<open>
  Batching, \<^verbatim>\<open>batch.rs\<close>: the configurations, the batch under construction, flushing a batch to
  the store with its metrics, and the synchronous writer. Instants and durations are in
  nanoseconds; every reading of the clock is an argument. The store is shared by reference in the
  code, so the functions take it and return it.
\<close>

section \<open>Configuration\<close>

record BatchConfig =
  max_batch_size :: nat
  max_batch_delay :: nat
  buffer_size :: nat
  num_processors :: nat
  use_optimized_append :: bool
  target_throughput :: u64
  enforce_append_only :: bool

definition from_millis :: "nat \<Rightarrow> nat" where
  "from_millis ms = ms * 1000000"

definition batch_config_default :: BatchConfig where
  "batch_config_default =
     \<lparr>max_batch_size = 1000, max_batch_delay = from_millis 10, buffer_size = 10000,
      num_processors = 4, use_optimized_append = True, target_throughput = 50000,
      enforce_append_only = True\<rparr>"

definition batch_config_high_throughput :: BatchConfig where
  "batch_config_high_throughput =
     \<lparr>max_batch_size = 2000, max_batch_delay = from_millis 5, buffer_size = 50000,
      num_processors = 8, use_optimized_append = True, target_throughput = 75000,
      enforce_append_only = True\<rparr>"

definition batch_config_low_latency :: BatchConfig where
  "batch_config_low_latency =
     \<lparr>max_batch_size = 100, max_batch_delay = from_millis 1, buffer_size = 5000,
      num_processors = 2, use_optimized_append = True, target_throughput = 10000,
      enforce_append_only = True\<rparr>"

section \<open>Batches\<close>

record EventBatch =
  batch_events :: "EventEnvelope list"
  created_at :: nat

definition event_batch_new :: "nat \<Rightarrow> EventBatch" where
  "event_batch_new now = \<lparr>batch_events = [], created_at = now\<rparr>"

definition batch_add_event :: "EventBatch \<Rightarrow> EventEnvelope \<Rightarrow> EventBatch" where
  "batch_add_event b event = b\<lparr>batch_events := batch_events b @ [event]\<rparr>"

definition batch_is_full :: "EventBatch \<Rightarrow> nat \<Rightarrow> bool" where
  "batch_is_full b max_size \<longleftrightarrow> length (batch_events b) \<ge> max_size"

definition batch_is_expired :: "nat \<Rightarrow> EventBatch \<Rightarrow> nat \<Rightarrow> bool" where
  "batch_is_expired now b max_delay \<longleftrightarrow> now - created_at b \<ge> max_delay"

definition batch_len :: "EventBatch \<Rightarrow> nat" where
  "batch_len b = length (batch_events b)"

definition batch_is_empty :: "EventBatch \<Rightarrow> bool" where
  "batch_is_empty b \<longleftrightarrow> batch_events b = []"

section \<open>Metrics\<close>

record BatchMetrics =
  total_events_processed :: u64
  total_batches_processed :: u64
  average_batch_size :: f64
  events_per_second :: f64
  last_batch_time :: "nat option"
  processing_errors :: u64
  total_bytes_written :: u64
  average_write_latency :: nat
  peak_throughput :: f64
  append_only_violations :: u64

definition metrics_default :: BatchMetrics where
  "metrics_default =
     \<lparr>total_events_processed = 0, total_batches_processed = 0, average_batch_size = Fin 0,
      events_per_second = Fin 0, last_batch_time = None, processing_errors = 0,
      total_bytes_written = 0, average_write_latency = 0, peak_throughput = Fin 0,
      append_only_violations = 0\<rparr>"

text \<open>What a successful flush writes into the metrics, statement by statement: \<open>start_time\<close> is
  the instant before the append, \<open>duration\<close> the time it took.\<close>

definition record_success ::
  "nat \<Rightarrow> nat \<Rightarrow> nat \<Rightarrow> AppendResult option \<Rightarrow> BatchMetrics \<Rightarrow> BatchMetrics" where
  "record_success n_events start_time duration append_result m =
     (let m = m\<lparr>total_events_processed := total_events_processed m + word_of_nat n_events\<rparr>;
          m = m\<lparr>total_batches_processed := total_batches_processed m + 1\<rparr>;
          m = m\<lparr>average_batch_size := f64_div (f64_of_nat (unat (total_events_processed m)))
                 (f64_of_nat (unat (total_batches_processed m)))\<rparr>;
          current_throughput = f64_div (f64_of_nat n_events) (as_secs_f64 duration);
          m = (if f64_gt current_throughput (peak_throughput m)
               then m\<lparr>peak_throughput := current_throughput\<rparr> else m);
          m = (case last_batch_time m of
                 None \<Rightarrow> m
               | Some last_time \<Rightarrow>
                   (let time_diff = as_secs_f64 (start_time - last_time) in
                    if f64_gt time_diff (Fin 0)
                    then m\<lparr>events_per_second := f64_div (f64_of_nat n_events) time_diff\<rparr> else m));
          m = m\<lparr>last_batch_time := Some start_time\<rparr>;
          total_latency = f64_mul (f64_of_nat (average_write_latency m))
            (f64_of_nat (unat (total_batches_processed m)));
          new_total_latency = f64_add total_latency (f64_of_nat duration);
          m = m\<lparr>average_write_latency := unat (f64_to_u64 (f64_div new_total_latency
                 (f64_of_nat (unat (total_batches_processed m + 1)))))\<rparr>
      in case append_result of
           None \<Rightarrow> m
         | Some r \<Rightarrow>
             m\<lparr>total_bytes_written := total_bytes_written m + word_of_nat (bytes_written r)\<rparr>)"

definition record_failure :: "EventStoreError \<Rightarrow> BatchMetrics \<Rightarrow> BatchMetrics" where
  "record_failure e m =
     (let m = m\<lparr>processing_errors := processing_errors m + 1\<rparr> in
      if contains (display_store_error e) ''already exists''
      then m\<lparr>append_only_violations := append_only_violations m + 1\<rparr> else m)"

section \<open>Flushing a batch\<close>

text \<open>The call into the store. \<open>took\<close> is the stopwatch inside \<^verbatim>\<open>append_events_optimized\<close>.\<close>

definition flush_append ::
  "'db RocksDB \<Rightarrow> Libs \<Rightarrow> BatchConfig \<Rightarrow> nat \<Rightarrow> 'db EventStore \<Rightarrow> EventEnvelope list
     \<Rightarrow> (EventStoreError + AppendResult option) \<times> 'db EventStore"
where
  "flush_append R X config took s es =
     (if use_optimized_append config
      then map_prod (map_sum id Some) id (append_events_optimized R X took s es)
      else map_prod (map_sum id (\<lambda>_. None)) id (append_events R X s es))"

definition flush_record ::
  "nat \<Rightarrow> nat \<Rightarrow> nat \<Rightarrow> EventStoreError + AppendResult option \<Rightarrow> BatchMetrics \<Rightarrow> BatchMetrics" where
  "flush_record n_events start_time duration result m =
     (case result of
        Inr append_result \<Rightarrow> record_success n_events start_time duration append_result m
      | Inl e \<Rightarrow> record_failure e m)"

text \<open>One flush from end to end: the next batch, the next metrics and the next store. \<open>now\<close> is the
  instant the new batch is created at.\<close>

definition flush_batch ::
  "'db RocksDB \<Rightarrow> Libs \<Rightarrow> BatchConfig \<Rightarrow> nat \<Rightarrow> nat \<Rightarrow> nat \<Rightarrow> nat
     \<Rightarrow> EventBatch \<Rightarrow> BatchMetrics \<Rightarrow> 'db EventStore
     \<Rightarrow> EventBatch \<times> BatchMetrics \<times> 'db EventStore"
where
  "flush_batch R X config start_time took duration now b m s =
     (if batch_is_empty b then (b, m, s)
      else let (result, s') = flush_append R X config took s (batch_events b)
           in (event_batch_new now, flush_record (batch_len b) start_time duration result m, s'))"

section \<open>The synchronous writer\<close>

record 'db SyncBatchWriter =
  w_event_store :: "'db EventStore"
  pending_events :: "EventEnvelope list"
  w_max_batch_size :: nat

definition writer_new :: "'db EventStore \<Rightarrow> nat \<Rightarrow> 'db SyncBatchWriter" where
  "writer_new s max_size = \<lparr>w_event_store = s, pending_events = [], w_max_batch_size = max_size\<rparr>"

definition writer_add_event :: "'db SyncBatchWriter \<Rightarrow> EventEnvelope \<Rightarrow> 'db SyncBatchWriter" where
  "writer_add_event w event = w\<lparr>pending_events := pending_events w @ [event]\<rparr>"

definition writer_flush ::
  "'db RocksDB \<Rightarrow> Libs \<Rightarrow> 'db SyncBatchWriter \<Rightarrow> (EventStoreError + unit) \<times> 'db SyncBatchWriter"
where
  "writer_flush R X w =
     (if pending_events w = [] then (Ok (), w)
      else let es = pending_events w;
               w = w\<lparr>pending_events := []\<rparr>;
               (r, s) = append_events R X (w_event_store w) es
           in (r, w\<lparr>w_event_store := s\<rparr>))"

definition writer_flush_if_full ::
  "'db RocksDB \<Rightarrow> Libs \<Rightarrow> 'db SyncBatchWriter \<Rightarrow> (EventStoreError + bool) \<times> 'db SyncBatchWriter"
where
  "writer_flush_if_full R X w =
     (if length (pending_events w) \<ge> w_max_batch_size w
      then let (r, w') = writer_flush R X w in (try_bind r (\<lambda>_. Ok True), w')
      else (Ok False, w))"

definition pending_count :: "'db SyncBatchWriter \<Rightarrow> nat" where
  "pending_count w = length (pending_events w)"

section \<open>Lemmas\<close>

sublocale event_store_env \<subseteq> flushed: append_log "\<lambda>es s. flush_append R X config took s es"
  "event_view X contents" "generate_event_key X" "store_wf X contents" for config took
proof
  fix s es r s'
  assume wf: "store_wf X contents s" and a: "flush_append R X config took s es = (r, s')"
  show "store_wf X contents s'"
    using a wf plain.append_inv[OF wf] optimized.append_inv[OF wf]
    by (cases "append_events R X s es"; cases "append_events_optimized R X took s es")
      (auto simp: flush_append_def split: if_splits)
next
  fix s es x s'
  assume wf: "store_wf X contents s" and a: "flush_append R X config took s es = (Inr x, s')"
  show "(\<forall>e\<in>set es. event_view X contents s (generate_event_key X e) = None)
      \<and> event_view X contents s' = event_view X contents s ++ key_entries (generate_event_key X) es"
  proof (cases "use_optimized_append config")
    case True
    then obtain y where "append_events_optimized R X took s es = (Inr y, s')"
      using a by (cases "append_events_optimized R X took s es"; cases "fst (append_events_optimized R X took s es)")
        (auto simp: flush_append_def)
    from optimized.append_Ok[OF wf this] show ?thesis .
  next
    case False
    then obtain y where "append_events R X s es = (Inr y, s')"
      using a by (cases "append_events R X s es"; cases "fst (append_events R X s es)")
        (auto simp: flush_append_def)
    from plain.append_Ok[OF wf this] show ?thesis .
  qed
next
  fix s es err s'
  assume wf: "store_wf X contents s" and a: "flush_append R X config took s es = (Inl err, s')"
  show "event_view X contents s' = event_view X contents s
      \<or> (\<forall>e\<in>set es. event_view X contents s (generate_event_key X e) = None)
        \<and> event_view X contents s' = event_view X contents s ++ key_entries (generate_event_key X) es"
  proof (cases "use_optimized_append config")
    case True
    then obtain r where "append_events_optimized R X took s es = (r, s')"
      using a by (cases "append_events_optimized R X took s es") (auto simp: flush_append_def)
    from optimized.append_outcome[OF wf this] show ?thesis .
  next
    case False
    then obtain r where "append_events R X s es = (r, s')"
      using a by (cases "append_events R X s es") (auto simp: flush_append_def)
    from plain.append_outcome[OF wf this] show ?thesis .
  qed
qed

lemma event_exists_display: "contains (display_store_error (event_exists_error X k)) ''already exists''"
proof -
  have "contains (a @ ''already exists'' @ b) ''already exists''" for a b :: string
    by (rule contains_middle)
  from this[of "''Concurrency error: Event with key '' @ key_debug X k @ '' ''"
      "''. Append-only store prevents overwrites.''"]
  show ?thesis by (simp add: event_exists_error_def del: contains.simps)
qed

lemma record_success_fields [simp]:
  "total_events_processed (record_success n t d r m) = total_events_processed m + word_of_nat n"
  "total_batches_processed (record_success n t d r m) = total_batches_processed m + 1"
  "processing_errors (record_success n t d r m) = processing_errors m"
  "append_only_violations (record_success n t d r m) = append_only_violations m"
  "last_batch_time (record_success n t d r m) = Some t"
  by (simp_all add: record_success_def Let_def split: option.splits)

lemma record_failure_fields [simp]:
  "total_events_processed (record_failure e m) = total_events_processed m"
  "total_batches_processed (record_failure e m) = total_batches_processed m"
  "processing_errors (record_failure e m) = processing_errors m + 1"
  by (simp_all add: record_failure_def Let_def)

lemma record_success_latency:
  "average_write_latency (record_success n t d r m) = unat (f64_to_u64 (f64_div
     (f64_add (f64_mul (f64_of_nat (average_write_latency m))
         (f64_of_nat (unat (total_batches_processed m + 1)))) (f64_of_nat d))
     (f64_of_nat (unat (total_batches_processed m + 1 + 1)))))"
  by (simp add: record_success_def Let_def split: option.splits)

lemma f64_to_u64_half:
  assumes "d < 2 ^ 53"
  shows "unat (f64_to_u64 (Fin (of_nat d / 2))) = d div 2"
proof -
  have f: "\<lfloor>rat_of_nat d / 2\<rfloor> = int (d div 2)"
    using floor_divide_of_nat_eq[of d 2, where ?'a = rat] by simp
  have "int (d div 2) < 2 ^ 64 - 1" using assms by simp
  then have "f64_to_u64 (Fin (of_nat d / 2)) = word_of_nat (d div 2)"
    by (simp add: f min_def)
  moreover have "d div 2 < 2 ^ 64" using assms by simp
  ultimately show ?thesis by (simp add: unat_of_nat take_bit_nat_eq_self)
qed

lemma key_entries_append: "key_entries key (xs @ ys) = key_entries key xs ++ key_entries key ys"
  by (simp add: key_entries_def)

context event_store_env
begin

lemma writer_flush_step:
  assumes wf: "store_wf X contents (w_event_store w)" and f: "writer_flush R X w = (r, w')"
  shows "store_wf X contents (w_event_store w') \<and> pending_events w' = []
    \<and> w_max_batch_size w' = w_max_batch_size w
    \<and> (r = Inr () \<longrightarrow> event_view X contents (w_event_store w') =
         event_view X contents (w_event_store w) ++ key_entries (generate_event_key X) (pending_events w))
    \<and> (event_view X contents (w_event_store w') = event_view X contents (w_event_store w)
       \<or> event_view X contents (w_event_store w') =
         event_view X contents (w_event_store w) ++ key_entries (generate_event_key X) (pending_events w))"
proof (cases "pending_events w = []")
  case True
  with f wf show ?thesis by (auto simp: writer_flush_def key_entries_def)
next
  case False
  obtain s where a: "append_events R X (w_event_store w) (pending_events w) = (r, s)"
    and w': "w' = w\<lparr>pending_events := [], w_event_store := s\<rparr>"
    using f False by (auto simp: writer_flush_def split: prod.splits)
  show ?thesis
    using plain.append_inv[OF wf a] plain.append_outcome[OF wf a]
      plain.append_Ok[OF wf, of "pending_events w" "()" s] a by (auto simp: w')
qed

lemma flush_batch_step:
  assumes wf: "store_wf X contents s" and ne: "batch_events b \<noteq> []"
    and f: "flush_batch R X config t0 took d now b m s = (b', m', s')"
  shows "store_wf X contents s' \<and> b' = event_batch_new now
    \<and> (event_view X contents s' = event_view X contents s ++ key_entries (generate_event_key X) (batch_events b)
         \<and> total_events_processed m' = total_events_processed m + word_of_nat (length (batch_events b))
         \<and> total_batches_processed m' = total_batches_processed m + 1
         \<and> processing_errors m' = processing_errors m
       \<or> (event_view X contents s' = event_view X contents s
          \<or> event_view X contents s' = event_view X contents s ++ key_entries (generate_event_key X) (batch_events b))
         \<and> total_events_processed m' = total_events_processed m
         \<and> total_batches_processed m' = total_batches_processed m
         \<and> processing_errors m' = processing_errors m + 1)"
proof -
  obtain r where a: "flush_append R X config took s (batch_events b) = (r, s')"
    and b': "b' = event_batch_new now" and m': "m' = flush_record (batch_len b) t0 d r m"
    using f ne by (auto simp: flush_batch_def batch_is_empty_def split: prod.splits)
  show ?thesis
  proof (cases r)
    case (Inr x)
    with flushed.append_inv[OF wf a] flushed.append_Ok[OF wf, of config took "batch_events b" x s'] a
    show ?thesis by (simp add: b' m' flush_record_def batch_len_def)
  next
    case (Inl e)
    with flushed.append_inv[OF wf a] flushed.append_outcome[OF wf a]
    show ?thesis by (auto simp: b' m' flush_record_def)
  qed
qed

end

section \<open>Runs of the writer\<close>

datatype WriterOp = AddEvent EventEnvelope | FlushIfFull | Flush

fun writer_op ::
  "'db RocksDB \<Rightarrow> Libs \<Rightarrow> WriterOp \<Rightarrow> 'db SyncBatchWriter \<Rightarrow> bool \<times> 'db SyncBatchWriter" where
  "writer_op R X (AddEvent e) w = (True, writer_add_event w e)"
| "writer_op R X FlushIfFull w = (let (r, w') = writer_flush_if_full R X w in (\<not> isl r, w'))"
| "writer_op R X Flush w = (let (r, w') = writer_flush R X w in (\<not> isl r, w'))"

text \<open>A run, and whether every call of it succeeded.\<close>

fun writer_run ::
  "'db RocksDB \<Rightarrow> Libs \<Rightarrow> WriterOp list \<Rightarrow> 'db SyncBatchWriter \<Rightarrow> bool \<times> 'db SyncBatchWriter" where
  "writer_run R X [] w = (True, w)"
| "writer_run R X (op # ops) w =
     (let (ok, w') = writer_op R X op w; (oks, w'') = writer_run R X ops w' in (ok \<and> oks, w''))"

fun op_added :: "WriterOp \<Rightarrow> EventEnvelope list" where
  "op_added (AddEvent e) = [e]"
| "op_added _ = []"

text \<open>What the writer stands for: the stored events and the pending ones on top.\<close>

definition writer_view ::
  "Libs \<Rightarrow> ('db \<Rightarrow> (key \<times> val) list) \<Rightarrow> 'db SyncBatchWriter \<Rightarrow> key \<rightharpoonup> EventEnvelope" where
  "writer_view X contents w =
     event_view X contents (w_event_store w) ++ key_entries (generate_event_key X) (pending_events w)"

context event_store_env
begin

lemma writer_flush_view:
  assumes "store_wf X contents (w_event_store w)" and "writer_flush R X w = (r, w')"
  shows "store_wf X contents (w_event_store w') \<and> (r = Inr () \<longrightarrow> writer_view X contents w' = writer_view X contents w)"
  using writer_flush_step[OF assms] by (auto simp: writer_view_def)

lemma writer_op_view:
  assumes wf: "store_wf X contents (w_event_store w)" and op: "writer_op R X op w = (ok, w')"
  shows "store_wf X contents (w_event_store w')
    \<and> (ok \<longrightarrow> writer_view X contents w' =
          writer_view X contents w ++ key_entries (generate_event_key X) (op_added op))"
proof (cases op)
  case (AddEvent e)
  with op wf show ?thesis
    by (auto simp: writer_add_event_def writer_view_def key_entries_append)
next
  case FlushIfFull
  obtain r w1 where f: "writer_flush R X w = (r, w1)" by (cases "writer_flush R X w")
  show ?thesis using op writer_flush_view[OF wf f] wf
    by (cases r) (auto simp: FlushIfFull writer_flush_if_full_def f split: if_splits)
next
  case Flush
  obtain r w1 where f: "writer_flush R X w = (r, w1)" by (cases "writer_flush R X w")
  show ?thesis using op writer_flush_view[OF wf f] by (cases r) (auto simp: Flush f)
qed

lemma writer_run_view:
  "store_wf X contents (w_event_store w) \<Longrightarrow> writer_run R X ops w = (ok, w') \<Longrightarrow>
     store_wf X contents (w_event_store w')
     \<and> (ok \<longrightarrow> writer_view X contents w' =
          writer_view X contents w ++ key_entries (generate_event_key X) (concat (map op_added ops)))"
proof (induction ops arbitrary: w ok w')
  case Nil
  then show ?case by simp
next
  case (Cons op ops)
  obtain ok1 w1 where op: "writer_op R X op w = (ok1, w1)" by (cases "writer_op R X op w")
  obtain ok2 w2 where run: "writer_run R X ops w1 = (ok2, w2)" by (cases "writer_run R X ops w1")
  from writer_op_view[OF Cons.prems(1) op] Cons.IH[OF _ run] Cons.prems(2) op run
  show ?case by (auto simp: key_entries_append)
qed

end

section \<open>Properties\<close>

text \<open>C25: A run of the synchronous writer in which every call succeeds loses nothing: whatever the
  order of additions and flushes, the stored events with the pending ones on top are the stored and
  pending events of the start with the added events on top.\<close>

theorem writer_run_complete:
  assumes "event_store_env R contents X" and "store_wf X contents (w_event_store w)"
    and "writer_run R X ops w = (True, w')"
  shows "store_wf X contents (w_event_store w')
    \<and> event_view X contents (w_event_store w') ++ key_entries (generate_event_key X) (pending_events w')
      = event_view X contents (w_event_store w)
        ++ key_entries (generate_event_key X) (pending_events w @ concat (map op_added ops))"
  using event_store_env.writer_run_view[OF assms] by (simp add: writer_view_def key_entries_append)

theorem writer_run_complete_witness:
  "\<exists>w'. writer_run ram_db (table_libs [root_event 1 5]) [AddEvent (root_event 1 5), FlushIfFull]
      (writer_new (demo_store True) 1) = (True, w')
    \<and> event_view (table_libs [root_event 1 5]) ram_contents (w_event_store w')
        (generate_event_key (table_libs [root_event 1 5]) (root_event 1 5)) = Some (root_event 1 5)"
proof -
  let ?X = "table_libs [root_event 1 5]" and ?w = "writer_new (demo_store True) 1"
  obtain w' where run: "writer_run ram_db ?X [AddEvent (root_event 1 5), FlushIfFull] ?w = (True, w')"
    and p: "pending_events w' = []"
    by (simp add: writer_new_def writer_add_event_def writer_flush_if_full_def writer_flush_def
        append_events_def demo_simps Let_def)
  have "store_wf ?X ram_contents (w_event_store ?w)" by (simp add: writer_new_def demo_wf)
  from writer_run_complete[OF demo_env this run] run show ?thesis
    by (simp add: p key_entries_def writer_new_def)
qed



text \<open>A flush of a processor's batch always starts a new batch, and its metrics tell what
  happened: either the store gained the whole batch and the events and batches processed grow by the
  batch and by one, or one processing error is counted and the store gained the whole batch or
  nothing.\<close>

theorem flush_batch_accounts:
  assumes "event_store_env R contents X" and "store_wf X contents s" and "batch_events b \<noteq> []"
    and "flush_batch R X config t0 took d now b m s = (b', m', s')"
  shows "batch_is_empty b' \<and> created_at b' = now \<and> store_wf X contents s'
    \<and> (let n = length (batch_events b);
           full = event_view X contents s ++ key_entries (generate_event_key X) (batch_events b)
       in event_view X contents s' = full
            \<and> total_events_processed m' = total_events_processed m + word_of_nat n
            \<and> total_batches_processed m' = total_batches_processed m + 1
            \<and> processing_errors m' = processing_errors m
        \<or> event_view X contents s' \<in> {event_view X contents s, full}
            \<and> total_events_processed m' = total_events_processed m
            \<and> total_batches_processed m' = total_batches_processed m
            \<and> processing_errors m' = processing_errors m + 1)"
  using event_store_env.flush_batch_step[OF assms]
  by (auto simp: Let_def event_batch_new_def batch_is_empty_def)

theorem flush_batch_accounts_witness:
  "\<exists>b' m' s'. flush_batch ram_db (table_libs [root_event 1 5]) batch_config_default 0 0 9 9
      \<lparr>batch_events = [root_event 1 5], created_at = 0\<rparr> metrics_default (demo_store False) = (b', m', s')
    \<and> batch_is_empty b'"
proof -
  let ?X = "table_libs [root_event 1 5]" and ?b = "\<lparr>batch_events = [root_event 1 5], created_at = 0\<rparr>"
  obtain b' m' s' where f: "flush_batch ram_db ?X batch_config_default 0 0 9 9 ?b metrics_default
      (demo_store False) = (b', m', s')"
    by (cases "flush_batch ram_db ?X batch_config_default 0 0 9 9 ?b metrics_default (demo_store False)")
  from flush_batch_accounts[OF demo_env demo_wf _ f] f show ?thesis by auto
qed

text \<open>A refused overwrite is counted as a processing error and as an append-only violation,
  the latter by its text, whatever the key prints as; any error whose text holds the words counts
  as one, and no other.\<close>

theorem violations_counted:
  "append_only_violations (flush_record n t d (Err (event_exists_error X k)) m) =
     append_only_violations m + 1
   \<and> processing_errors (flush_record n t d (Err (event_exists_error X k)) m) = processing_errors m + 1
   \<and> append_only_violations (flush_record n t d (Err (DatabaseError (a @ ''already exists'' @ b))) m) =
       append_only_violations m + 1
   \<and> append_only_violations (flush_record n t d (Ok r) m) = append_only_violations m"
proof -
  have "contains ((''Database error: '' @ a) @ ''already exists'' @ b) ''already exists''"
    by (rule contains_middle)
  then show ?thesis
    using event_exists_display[of X k]
    by (simp add: flush_record_def record_failure_def Let_def
        del: contains.simps display_store_error.simps) simp
qed

text \<open>The latency metric is off by one in its weights: after the first successful flush of a
  duration below \<open>2 ^ 53\<close> nanoseconds the average write latency is half that duration.\<close>

theorem first_latency_halved:
  assumes "d < 2 ^ 53"
  shows "average_write_latency (flush_record n t d (Ok r) metrics_default) = d div 2
    \<and> total_batches_processed (flush_record n t d (Ok r) metrics_default) = 1"
  using f64_half_exact[OF assms] f64_to_u64_half[OF assms]
    f64_of_nat_exact[OF assms, unfolded f64_of_nat_def] assms
  by (simp add: flush_record_def record_success_latency metrics_default_def f64_of_nat_exact
      f64_round_zero)

theorem first_latency_halved_witness:
  "average_write_latency (flush_record 3 0 1000 (Ok None) metrics_default) = 500"
  using first_latency_halved[of 1000 3 0 None] by simp

end
