(* ===== verification/BatchSystem.thy ===== *)
theory BatchSystem
  imports Batch "HOL-Library.Multiset"
begin

text \<open>
  The batch processor of \<^verbatim>\<open>batch.rs\<close> as a transition system: one bounded channel, a number of
  processors that each run the \<^verbatim>\<open>select!\<close> loop of \<^verbatim>\<open>run_batch_processor\<close>, one store and one set of
  metrics. A processor is interrupted where it awaits: at the \<open>select!\<close>, before the append, and
  between the append and the update of the metrics. \<^verbatim>\<open>Notify::notify_waiters\<close> reaches the
  processors that wait at the \<open>select!\<close> and leaves no permit for the others; a notification is
  forgotten when the loop takes another branch first.
\<close>

section \<open>State\<close>

type_synonym flush_result = "EventStoreError + AppendResult option"

text \<open>Spawned and not yet polled; waiting at the \<open>select!\<close> with a batch, and perhaps a notification;
  about to append a batch; about to record the result of an append (its start and size); out of the
  loop. The flag of the two flushing states says whether the loop is left after the flush.\<close>

datatype processor =
    Spawned
  | Selecting EventBatch bool
  | Appending EventBatch bool
  | Recording nat nat flush_result bool
  | Stopped

record 'db BatchProcessor =
  bp_store :: "'db EventStore"
  bp_config :: BatchConfig
  bp_queue :: "EventEnvelope list"
  bp_sender_open :: bool
  bp_metrics :: BatchMetrics
  bp_processors :: "processor list"

text \<open>\<^verbatim>\<open>BatchProcessor::new\<close> followed by \<^verbatim>\<open>start\<close>: the channel of \<^verbatim>\<open>new\<close> has no receiver and is not
  used; the tasks are spawned. Both make a channel, which panics on a capacity of 0 or beyond
  tokio's limit, \<^verbatim>\<open>usize::MAX >> 3\<close>.\<close>

definition processor_start :: "'db EventStore \<Rightarrow> BatchConfig \<Rightarrow> 'db BatchProcessor" where
  "processor_start s config =
     \<lparr>bp_store = s, bp_config = config, bp_queue = [], bp_sender_open = True,
      bp_metrics = metrics_default, bp_processors = replicate (num_processors config) Spawned\<rparr>"

definition channel_ok :: "nat \<Rightarrow> bool" where
  "channel_ok n \<longleftrightarrow> n \<noteq> 0 \<and> n \<le> (2 ^ 64 - 1) div 8"

definition processor_create :: "'db EventStore \<Rightarrow> BatchConfig \<Rightarrow> 'db BatchProcessor run" where
  "processor_create s config =
     (if channel_ok (buffer_size config) then Return (processor_start s config) else Panic)"

definition get_metrics :: "'db BatchProcessor \<Rightarrow> BatchMetrics" where
  "get_metrics s = bp_metrics s"

section \<open>The branches of the loop\<close>

text \<open>Before the loop: the first batch, and a timer, which panics on a period of 0; the runtime then
  drops the task.\<close>

definition begin_processor :: "BatchConfig \<Rightarrow> nat \<Rightarrow> processor" where
  "begin_processor config now =
     (let b = event_batch_new now in
      if max_batch_delay config = 0 then Stopped else Selecting b False)"

definition on_event :: "BatchConfig \<Rightarrow> EventBatch \<Rightarrow> EventEnvelope \<Rightarrow> processor" where
  "on_event config b envelope =
     (let b = batch_add_event b envelope in
      if batch_is_full b (max_batch_size config) then Appending b False else Selecting b False)"

text \<open>The channel is closed, or the processor was notified: flush what there is and leave.\<close>

definition on_exit :: "EventBatch \<Rightarrow> processor" where
  "on_exit b = (if \<not> batch_is_empty b then Appending b True else Stopped)"

definition on_tick :: "BatchConfig \<Rightarrow> nat \<Rightarrow> EventBatch \<Rightarrow> processor" where
  "on_tick config now b =
     (if \<not> batch_is_empty b \<and> batch_is_expired now b (max_batch_delay config)
      then Appending b False else Selecting b False)"

text \<open>\<^verbatim>\<open>shutdown\<close> notifies the waiting processors.\<close>

fun notify_processor :: "processor \<Rightarrow> processor" where
  "notify_processor (Selecting b n) = Selecting b True"
| "notify_processor p = p"

definition after_record :: "nat \<Rightarrow> bool \<Rightarrow> processor" where
  "after_record now leave = (if leave then Stopped else Selecting (event_batch_new now) False)"

section \<open>Steps\<close>

datatype label =
    Send EventEnvelope
  | CloseSender
  | Begin nat nat
  | Recv nat EventEnvelope
  | RecvClosed nat
  | Tick nat nat
  | Shutdown
  | Notified nat
  | Write nat nat "EventEnvelope list" flush_result
  | Record nat nat nat

inductive system_step ::
  "'db RocksDB \<Rightarrow> Libs \<Rightarrow> 'db BatchProcessor \<Rightarrow> label \<Rightarrow> 'db BatchProcessor \<Rightarrow> bool"
  for R :: "'db RocksDB" and X :: Libs
where
  step_send: "bp_sender_open s \<Longrightarrow> length (bp_queue s) < buffer_size (bp_config s) \<Longrightarrow>
     \<exists>p\<in>set (bp_processors s). p \<noteq> Stopped \<Longrightarrow>
     system_step R X s (Send e) (s\<lparr>bp_queue := bp_queue s @ [e]\<rparr>)"
| step_close: "system_step R X s CloseSender (s\<lparr>bp_sender_open := False\<rparr>)"
| step_begin: "i < length (bp_processors s) \<Longrightarrow> bp_processors s ! i = Spawned \<Longrightarrow>
     system_step R X s (Begin i now)
       (s\<lparr>bp_processors := (bp_processors s)[i := begin_processor (bp_config s) now]\<rparr>)"
| step_recv: "i < length (bp_processors s) \<Longrightarrow> bp_processors s ! i = Selecting b n \<Longrightarrow>
     bp_queue s = e # q \<Longrightarrow>
     system_step R X s (Recv i e)
       (s\<lparr>bp_queue := q, bp_processors := (bp_processors s)[i := on_event (bp_config s) b e]\<rparr>)"
| step_recv_closed: "i < length (bp_processors s) \<Longrightarrow> bp_processors s ! i = Selecting b n \<Longrightarrow>
     bp_queue s = [] \<Longrightarrow> \<not> bp_sender_open s \<Longrightarrow>
     system_step R X s (RecvClosed i) (s\<lparr>bp_processors := (bp_processors s)[i := on_exit b]\<rparr>)"
| step_tick: "i < length (bp_processors s) \<Longrightarrow> bp_processors s ! i = Selecting b n \<Longrightarrow>
     system_step R X s (Tick i now)
       (s\<lparr>bp_processors := (bp_processors s)[i := on_tick (bp_config s) now b]\<rparr>)"
| step_shutdown: "system_step R X s Shutdown
       (s\<lparr>bp_processors := map notify_processor (bp_processors s)\<rparr>)"
| step_notified: "i < length (bp_processors s) \<Longrightarrow> bp_processors s ! i = Selecting b True \<Longrightarrow>
     system_step R X s (Notified i) (s\<lparr>bp_processors := (bp_processors s)[i := on_exit b]\<rparr>)"
| step_write: "i < length (bp_processors s) \<Longrightarrow> bp_processors s ! i = Appending b leave \<Longrightarrow>
     flush_append R X (bp_config s) took (bp_store s) (batch_events b) = (r, store) \<Longrightarrow>
     system_step R X s (Write i took (batch_events b) r)
       (s\<lparr>bp_store := store,
          bp_processors := (bp_processors s)[i := Recording start (batch_len b) r leave]\<rparr>)"
| step_record: "i < length (bp_processors s) \<Longrightarrow> bp_processors s ! i = Recording start n r leave \<Longrightarrow>
     system_step R X s (Record i duration now)
       (s\<lparr>bp_metrics := flush_record n start duration r (bp_metrics s),
          bp_processors := (bp_processors s)[i := after_record now leave]\<rparr>)"

inductive system_run ::
  "'db RocksDB \<Rightarrow> Libs \<Rightarrow> 'db BatchProcessor \<Rightarrow> label list \<Rightarrow> 'db BatchProcessor \<Rightarrow> bool"
  for R :: "'db RocksDB" and X :: Libs
where
  run_refl: "system_run R X s [] s"
| run_step: "system_run R X s ls t \<Longrightarrow> system_step R X t l u \<Longrightarrow> system_run R X s (ls @ [l]) u"

inductive_cases system_step_elims:
  "system_step R X s (Send e) t" "system_step R X s CloseSender t"
  "system_step R X s (Begin i now) t" "system_step R X s (Recv i e) t"
  "system_step R X s (RecvClosed i) t" "system_step R X s (Tick i now) t"
  "system_step R X s Shutdown t" "system_step R X s (Notified i) t"
  "system_step R X s (Write i took es r) t" "system_step R X s (Record i d now) t"

text \<open>What a trace sent, wrote, and with which outcomes.\<close>

fun sent_event :: "label \<Rightarrow> EventEnvelope list" where
  "sent_event (Send e) = [e]"
| "sent_event _ = []"

fun written_events :: "label \<Rightarrow> EventEnvelope list" where
  "written_events (Write i took es r) = es"
| "written_events _ = []"

definition sent :: "label list \<Rightarrow> EventEnvelope list" where
  "sent ls = concat (map sent_event ls)"

definition written :: "label list \<Rightarrow> EventEnvelope list" where
  "written ls = concat (map written_events ls)"

fun held :: "processor \<Rightarrow> EventEnvelope list" where
  "held (Selecting b n) = batch_events b"
| "held (Appending b leave) = batch_events b"
| "held _ = []"

section \<open>The branches\<close>

lemma held_branches [simp]:
  "held (on_event config b e) = batch_events b @ [e]"
  "held (on_exit b) = batch_events b"
  "held (on_tick config now b) = batch_events b"
  "held (notify_processor p) = held p"
  "held (after_record now leave) = []"
  "held (begin_processor config now) = []"
proof -
  show "held (notify_processor p) = held p" by (cases p) auto
qed (simp_all add: on_event_def on_exit_def on_tick_def after_record_def begin_processor_def
    batch_is_empty_def batch_add_event_def event_batch_new_def Let_def)

lemma sum_list_update_eq:
  "i < length xs \<Longrightarrow>
     sum_list (map f (xs[i := x])) + f (xs ! i) = sum_list (map f xs) + (f x :: 'b::comm_monoid_add)"
proof (induction xs arbitrary: i)
  case (Cons y ys)
  show ?case
  proof (cases i)
    case 0
    then show ?thesis by (simp add: ac_simps)
  next
    case (Suc j)
    with Cons show ?thesis by (simp add: add.assoc)
  qed
qed simp

lemma sent_simps [simp]: "sent [] = []" "sent (l # ls) = sent_event l @ sent ls"
  by (simp_all add: sent_def)

lemma written_simps [simp]: "written [] = []" "written (l # ls) = written_events l @ written ls"
  by (simp_all add: written_def)

lemma sent_append [simp]: "sent (ks @ ls) = sent ks @ sent ls"
  by (simp add: sent_def)

lemma written_append [simp]: "written (ks @ ls) = written ks @ written ls"
  by (simp add: written_def)

lemma system_run_trans:
  "system_run R X t ls u \<Longrightarrow> system_run R X s ks t \<Longrightarrow> system_run R X s (ks @ ls) u"
proof (induction rule: system_run.induct)
  case (run_step t ls u l v)
  then show ?case using system_run.run_step[of R X s "ks @ ls" u l v] by simp
qed simp

lemma system_run_Cons:
  "system_step R X s l t \<Longrightarrow> system_run R X t ls u \<Longrightarrow> system_run R X s (l # ls) u"
  using system_run_trans[of R X t ls u s "[l]"] run_step[OF run_refl] by fastforce

lemma step_config [simp]: "system_step R X s l t \<Longrightarrow> bp_config t = bp_config s"
  by (induction rule: system_step.induct) auto

lemma run_config: "system_run R X s ls t \<Longrightarrow> bp_config t = bp_config s"
  by (induction rule: system_run.induct) auto

lemma step_length: "system_step R X s l t \<Longrightarrow> length (bp_processors t) = length (bp_processors s)"
  by (induction rule: system_step.induct) auto

lemma write_stepD:
  assumes "system_step R X s (Write i took es r) t"
  shows "\<exists>b leave start. i < length (bp_processors s) \<and> bp_processors s ! i = Appending b leave
    \<and> es = batch_events b
    \<and> flush_append R X (bp_config s) took (bp_store s) es = (r, bp_store t)
    \<and> bp_processors t = (bp_processors s)[i := Recording start (batch_len b) r leave]"
  using assms by (cases rule: system_step.cases) auto

section \<open>Conservation of events\<close>

definition in_flight :: "'db BatchProcessor \<Rightarrow> EventEnvelope multiset" where
  "in_flight s = mset (bp_queue s) + sum_list (map (\<lambda>p. mset (held p)) (bp_processors s))"

lemma in_flight_update:
  assumes "i < length (bp_processors s)"
  shows "in_flight (s\<lparr>bp_processors := (bp_processors s)[i := p]\<rparr>) + mset (held (bp_processors s ! i))
    = in_flight s + mset (held p)"
  using sum_list_update_eq[OF assms, of "\<lambda>p. mset (held p)" p] by (simp add: in_flight_def ac_simps)

lemma step_conserves:
  "system_step R X s l t \<Longrightarrow>
     in_flight t + mset (written_events l) = in_flight s + mset (sent_event l)"
proof (induction rule: system_step.induct)
  case (step_begin i s now)
  then show ?case using in_flight_update[of i s "begin_processor (bp_config s) now"] by simp
next
  case (step_recv i s b n e q)
  then show ?case
    using sum_list_update_eq[of i "bp_processors s" "\<lambda>p. mset (held p)" "on_event (bp_config s) b e"]
    by (simp add: in_flight_def)
next
  case (step_recv_closed i s b n)
  then show ?case using in_flight_update[of i s "on_exit b"] by simp
next
  case (step_tick i s b n now)
  then show ?case using in_flight_update[of i s "on_tick (bp_config s) now b"] by simp
next
  case (step_shutdown s)
  then show ?case by (simp add: in_flight_def comp_def)
next
  case (step_notified i s b)
  then show ?case using in_flight_update[of i s "on_exit b"] by simp
next
  case (step_write i s b leave took r store start)
  then show ?case
    using in_flight_update[of i s "Recording start (batch_len b) r leave"]
    by (simp add: in_flight_def)
next
  case (step_record i s start n r leave duration now)
  then show ?case using in_flight_update[of i s "after_record now leave"]
    by (simp add: in_flight_def)
qed (simp_all add: in_flight_def)

lemma run_conserves:
  "system_run R X s ls t \<Longrightarrow> in_flight t + mset (written ls) = in_flight s + mset (sent ls)"
proof (induction rule: system_run.induct)
  case (run_step s ls t l u)
  have "in_flight u + mset (written (ls @ [l])) = (in_flight u + mset (written_events l)) + mset (written ls)"
    by simp
  also have "\<dots> = (in_flight t + mset (written ls)) + mset (sent_event l)"
    using step_conserves[OF run_step.hyps(2)] by simp
  finally show ?case using run_step.IH by simp
qed simp

lemma in_flight_stopped:
  assumes "\<forall>p\<in>set (bp_processors s). p = Stopped"
  shows "in_flight s = mset (bp_queue s)"
proof -
  have "\<forall>p\<in>set ps. p = Stopped \<Longrightarrow> sum_list (map (\<lambda>p. mset (held p)) ps) = {#}" for ps
    by (induction ps) auto
  with assms show ?thesis by (simp add: in_flight_def)
qed

lemma in_flight_start [simp]: "in_flight (processor_start s config) = {#}"
proof -
  have "sum_list (replicate n {#}) = {#}" for n by (induction n) auto
  then show ?thesis by (simp add: in_flight_def processor_start_def)
qed

section \<open>The size of the batches\<close>

fun bounded_by :: "nat \<Rightarrow> processor \<Rightarrow> bool" where
  "bounded_by k (Selecting b n) \<longleftrightarrow> length (batch_events b) < k"
| "bounded_by k (Appending b leave) \<longleftrightarrow> batch_events b \<noteq> [] \<and> length (batch_events b) \<le> k"
| "bounded_by k _ \<longleftrightarrow> True"

text \<open>A batch is flushed when an event has filled it, so one of a single event is flushed even when the
  configured size is 0.\<close>

definition largest_batch :: "BatchConfig \<Rightarrow> nat" where
  "largest_batch config = max 1 (max_batch_size config)"

lemma largest_batch_pos [simp]: "0 < largest_batch config" "Suc 0 \<le> largest_batch config"
  "max_batch_size config \<le> largest_batch config"
  by (simp_all add: largest_batch_def)

definition batches_bounded :: "'db BatchProcessor \<Rightarrow> bool" where
  "batches_bounded s \<longleftrightarrow> (\<forall>p\<in>set (bp_processors s). bounded_by (largest_batch (bp_config s)) p)"

lemma batches_bounded_update:
  assumes "batches_bounded s" and "bp_config t = bp_config s"
    and "bp_processors t = (bp_processors s)[i := p]" and "bounded_by (largest_batch (bp_config s)) p"
  shows "batches_bounded t"
  unfolding batches_bounded_def assms(2,3)
proof
  fix q assume "q \<in> set ((bp_processors s)[i := p])"
  then have "q = p \<or> q \<in> set (bp_processors s)" using set_update_subset_insert by fastforce
  then show "bounded_by (largest_batch (bp_config s)) q"
    using assms(1,4) unfolding batches_bounded_def by blast
qed

lemma batches_bounded_nth:
  "batches_bounded s \<Longrightarrow> i < length (bp_processors s) \<Longrightarrow> bp_processors s ! i = p \<Longrightarrow>
     bounded_by (largest_batch (bp_config s)) p"
  unfolding batches_bounded_def by (metis nth_mem)

lemma bounded_by_notify [simp]: "bounded_by k (notify_processor p) = bounded_by k p"
  by (cases p) auto

lemmas branch_defs = on_event_def on_exit_def on_tick_def after_record_def begin_processor_def batch_is_empty_def
  batch_add_event_def batch_is_full_def event_batch_new_def

lemma step_bounded:
  "system_step R X s l t \<Longrightarrow> batches_bounded s \<Longrightarrow> batches_bounded t"
proof (induction rule: system_step.induct)
  case (step_begin i s now)
  then show ?case
    by (intro batches_bounded_update[OF step_begin(3), where i = i and p = "begin_processor (bp_config s) now"])
      (auto simp: branch_defs Let_def)
next
  case (step_recv i s b n e q)
  from batches_bounded_nth[OF step_recv(4,1,2)] show ?case
    by (intro batches_bounded_update[OF step_recv(4), where i = i and p = "on_event (bp_config s) b e"])
      (auto simp: branch_defs Let_def largest_batch_def)
next
  case (step_recv_closed i s b n)
  from batches_bounded_nth[OF step_recv_closed(5,1,2)] show ?case
    by (intro batches_bounded_update[OF step_recv_closed(5), where i = i and p = "on_exit b"])
      (auto simp: branch_defs)
next
  case (step_tick i s b n now)
  from batches_bounded_nth[OF step_tick(3,1,2)] show ?case
    by (intro batches_bounded_update[OF step_tick(3), where i = i and p = "on_tick (bp_config s) now b"])
      (auto simp: branch_defs)
next
  case (step_shutdown s)
  then show ?case by (simp add: batches_bounded_def)
next
  case (step_notified i s b)
  from batches_bounded_nth[OF step_notified(3,1,2)] show ?case
    by (intro batches_bounded_update[OF step_notified(3), where i = i and p = "on_exit b"])
      (auto simp: branch_defs)
next
  case (step_write i s b leave took r store start)
  show ?case
    by (intro batches_bounded_update[OF step_write(4), where i = i
        and p = "Recording start (batch_len b) r leave"]) auto
next
  case (step_record i s start n r leave duration now)
  then show ?case
    by (intro batches_bounded_update[OF step_record(3), where i = i and p = "after_record now leave"])
      (auto simp: branch_defs)
qed (auto simp: batches_bounded_def)

lemma start_bounded: "batches_bounded (processor_start s config)"
  by (auto simp: batches_bounded_def processor_start_def event_batch_new_def)

fun batch_fits :: "nat \<Rightarrow> label \<Rightarrow> bool" where
  "batch_fits k (Write i took es r) \<longleftrightarrow> es \<noteq> [] \<and> length es \<le> k"
| "batch_fits k _ \<longleftrightarrow> True"

lemma run_bounded:
  "system_run R X s ls t \<Longrightarrow> batches_bounded s \<Longrightarrow>
     batches_bounded t \<and> (\<forall>l\<in>set ls. batch_fits (largest_batch (bp_config s)) l)"
proof (induction rule: system_run.induct)
  case (run_step s ls t l u)
  have conf: "bp_config t = bp_config s" using run_config[OF run_step.hyps(1)] .
  with run_step have t: "batches_bounded t" by simp
  have "batch_fits (largest_batch (bp_config s)) l"
  proof (cases l)
    case (Write i took es r)
    with write_stepD[OF run_step.hyps(2)[unfolded Write]] batches_bounded_nth[OF t] conf
    show ?thesis by fastforce
  qed auto
  with run_step step_bounded[OF run_step.hyps(2) t] conf show ?case by auto
qed simp

lemma run_queue:
  "system_run R X s ls t \<Longrightarrow> length (bp_queue s) \<le> buffer_size (bp_config s) \<Longrightarrow>
     length (bp_queue t) \<le> buffer_size (bp_config t)"
proof (induction rule: system_run.induct)
  case (run_step s ls t l u)
  then have "length (bp_queue t) \<le> buffer_size (bp_config t)" by simp
  with run_step.hyps(2) show ?case by (cases rule: system_step.cases) auto
qed simp

section \<open>The store under the processors\<close>

context event_store_env
begin

lemma system_step_store:
  assumes "system_step R X s l t" and wf: "store_wf X contents (bp_store s)"
  shows "store_wf X contents (bp_store t)
    \<and> event_view X contents (bp_store s) \<subseteq>\<^sub>m event_view X contents (bp_store t)
    \<and> ran (event_view X contents (bp_store t)) \<subseteq> ran (event_view X contents (bp_store s)) \<union> set (written_events l)
    \<and> (\<forall>i took es x. l = Write i took es (Inr x) \<longrightarrow>
         (\<forall>e\<in>set es. event_view X contents (bp_store t) (generate_event_key X e) \<noteq> None))"
proof (cases "\<exists>i took es r. l = Write i took es r")
  case False
  with assms(1) have "bp_store t = bp_store s" by (cases rule: system_step.cases) auto
  with wf False show ?thesis by simp
next
  case True
  then obtain i took es r where l: "l = Write i took es r" by blast
  from write_stepD[OF assms(1)[unfolded l]]
  have a: "flush_append R X (bp_config s) took (bp_store s) es = (r, bp_store t)" by blast
  have "event_view X contents (bp_store t) (generate_event_key X e) \<noteq> None"
    if "r = Inr x" "e \<in> set es" for x e
  proof -
    have "e \<in> set es \<Longrightarrow> key_entries (generate_event_key X) es (generate_event_key X e) \<noteq> None"
      unfolding key_entries_None by simp
    then show ?thesis
      using flushed.append_Ok[OF wf, of "bp_config s" took es x "bp_store t"] a that by auto
  qed
  moreover have "ran (event_view X contents (bp_store t)) \<subseteq> ran (event_view X contents (bp_store s)) \<union> set es"
    using flushed.append_origin[OF wf a] by (fastforce simp: ran_def)
  ultimately show ?thesis
    using flushed.append_inv[OF wf a] flushed.append_only[OF wf a] by (simp add: l)
qed

lemma system_run_store:
  "system_run R X s ls t \<Longrightarrow> store_wf X contents (bp_store s) \<Longrightarrow>
     store_wf X contents (bp_store t)
    \<and> event_view X contents (bp_store s) \<subseteq>\<^sub>m event_view X contents (bp_store t)
    \<and> ran (event_view X contents (bp_store t)) \<subseteq> ran (event_view X contents (bp_store s)) \<union> set (written ls)
    \<and> (\<forall>i took es x. Write i took es (Inr x) \<in> set ls \<longrightarrow>
         (\<forall>e\<in>set es. generate_event_key X e \<in> dom (event_view X contents (bp_store t))))"
proof (induction rule: system_run.induct)
  case (run_step s ls t l u)
  note IH = run_step.IH[OF run_step.prems]
  then have wf: "store_wf X contents (bp_store t)" by blast
  note step = system_step_store[OF run_step.hyps(2) wf]
  have "dom (event_view X contents (bp_store t)) \<subseteq> dom (event_view X contents (bp_store u))"
    using step by (intro map_le_implies_dom_le) blast
  then have "\<forall>i took es x. Write i took es (Inr x) \<in> set (ls @ [l]) \<longrightarrow>
      (\<forall>e\<in>set es. generate_event_key X e \<in> dom (event_view X contents (bp_store u)))"
    using IH step by (simp only: set_append list.set Un_iff insert_iff empty_iff domIff) blast
  moreover have "event_view X contents (bp_store s) \<subseteq>\<^sub>m event_view X contents (bp_store u)"
    using IH step map_le_trans by blast
  ultimately show ?case using IH step by auto
qed simp

end

section \<open>The metrics under the processors\<close>

text \<open>A counter of the metrics, and what a flush of \<open>n\<close> events with a given result adds to it.\<close>

locale flush_counter =
  fixes counter :: "BatchMetrics \<Rightarrow> u64" and weight :: "nat \<Rightarrow> flush_result \<Rightarrow> nat"
  assumes counts: "counter (flush_record n start d r m) = counter m + word_of_nat (weight n r)"

fun label_weight :: "(nat \<Rightarrow> flush_result \<Rightarrow> nat) \<Rightarrow> label \<Rightarrow> nat" where
  "label_weight w (Write i took es r) = w (length es) r"
| "label_weight w _ = 0"

fun unrecorded :: "(nat \<Rightarrow> flush_result \<Rightarrow> nat) \<Rightarrow> processor \<Rightarrow> nat" where
  "unrecorded w (Recording start n r leave) = w n r"
| "unrecorded w _ = 0"

lemma unrecorded_branches [simp]:
  "unrecorded w (on_event config b e) = 0" "unrecorded w (on_exit b) = 0"
  "unrecorded w (on_tick config now b) = 0" "unrecorded w (after_record now leave) = 0"
  "unrecorded w (begin_processor config now) = 0"
  "unrecorded w (notify_processor p) = unrecorded w p"
proof -
  show "unrecorded w (notify_processor p) = unrecorded w p" by (cases p) auto
qed (simp_all add: branch_defs Let_def)

text \<open>No processor stands between an append and the update of the metrics.\<close>

definition settled :: "'db BatchProcessor \<Rightarrow> bool" where
  "settled s \<longleftrightarrow> (\<forall>p\<in>set (bp_processors s).
     case p of Recording start n r leave \<Rightarrow> False | _ \<Rightarrow> True)"

context flush_counter
begin

definition tally :: "'db BatchProcessor \<Rightarrow> u64" where
  "tally s = counter (bp_metrics s) + word_of_nat (sum_list (map (unrecorded weight) (bp_processors s)))"

lemma tally_update:
  assumes "i < length (bp_processors s)"
  shows "tally (s\<lparr>bp_processors := (bp_processors s)[i := p]\<rparr>) + word_of_nat (unrecorded weight (bp_processors s ! i))
    = tally s + word_of_nat (unrecorded weight p)"
  using arg_cong[OF sum_list_update_eq[OF assms, of "unrecorded weight" p], of "word_of_nat :: nat \<Rightarrow> u64"]
  by (simp add: tally_def)

lemma tally_queue [simp]: "tally (s\<lparr>bp_queue := q, bp_processors := ps\<rparr>) = tally (s\<lparr>bp_processors := ps\<rparr>)"
  "tally (s\<lparr>bp_store := st, bp_processors := ps\<rparr>) = tally (s\<lparr>bp_processors := ps\<rparr>)"
  by (simp_all add: tally_def)

lemma step_tally: "system_step R X s l t \<Longrightarrow> tally t = tally s + word_of_nat (label_weight weight l)"
proof (induction rule: system_step.induct)
  case (step_begin i s now)
  then show ?case using tally_update[of i s "begin_processor (bp_config s) now"] by simp
next
  case (step_recv i s b n e q)
  then show ?case using tally_update[of i s "on_event (bp_config s) b e"] by simp
next
  case (step_recv_closed i s b n)
  then show ?case using tally_update[of i s "on_exit b"] by simp
next
  case (step_tick i s b n now)
  then show ?case using tally_update[of i s "on_tick (bp_config s) now b"] by simp
next
  case (step_notified i s b)
  then show ?case using tally_update[of i s "on_exit b"] by simp
next
  case (step_write i s b leave took r store start)
  then show ?case using tally_update[of i s "Recording start (batch_len b) r leave"]
    by (simp add: batch_len_def)
next
  case (step_record i s start n r leave duration now)
  then show ?case using tally_update[of i s "after_record now leave"]
    by (simp add: tally_def counts ac_simps)
qed (simp_all add: tally_def comp_def)

lemma run_tally: "system_run R X s ls t \<Longrightarrow>
    tally t = tally s + word_of_nat (sum_list (map (label_weight weight) ls))"
  by (induction rule: system_run.induct) (simp_all add: step_tally ac_simps)

lemma settled_tally:
  assumes "system_run R X (processor_start s config) ls t" and "counter metrics_default = 0"
    and "settled t"
  shows "counter (bp_metrics t) = word_of_nat (sum_list (map (label_weight weight) ls))"
proof -
  have "unrecorded weight p = 0" if "p \<in> set (bp_processors t)" for p
    using assms(3) that by (cases p) (auto simp: settled_def)
  then have "sum_list (map (unrecorded weight) (bp_processors t)) = 0" by (induction "bp_processors t") auto
  moreover have "sum_list (map (unrecorded weight) (bp_processors (processor_start s config))) = 0"
    by (simp add: processor_start_def sum_list_replicate)
  moreover have "counter (bp_metrics (processor_start s config)) = 0"
    using assms(2) by (simp add: processor_start_def)
  ultimately show ?thesis using run_tally[OF assms(1)]
    by (simp add: tally_def del: sum_list_eq_0_iff)
qed

end

text \<open>The three counters: the events and the batches of successful flushes, the failed flushes.\<close>

fun ok_events :: "nat \<Rightarrow> flush_result \<Rightarrow> nat" where
  "ok_events n (Inr x) = n" | "ok_events n (Inl e) = 0"

fun ok_batches :: "nat \<Rightarrow> flush_result \<Rightarrow> nat" where
  "ok_batches n (Inr x) = 1" | "ok_batches n (Inl e) = 0"

fun failures :: "nat \<Rightarrow> flush_result \<Rightarrow> nat" where
  "failures n (Inr x) = 0" | "failures n (Inl e) = 1"

interpretation count_events: flush_counter total_events_processed ok_events
  by unfold_locales (simp add: flush_record_def split: sum.splits)

interpretation count_batches: flush_counter total_batches_processed ok_batches
  by unfold_locales (simp add: flush_record_def split: sum.splits)

interpretation count_failures: flush_counter processing_errors failures
  by unfold_locales (simp add: flush_record_def split: sum.splits)

section \<open>Draining\<close>

fun quiet :: "label \<Rightarrow> bool" where
  "quiet (Recv i e) \<longleftrightarrow> True"
| "quiet (Begin i now) \<longleftrightarrow> True"
| "quiet (RecvClosed i) \<longleftrightarrow> True"
| "quiet (Notified i) \<longleftrightarrow> True"
| "quiet (Write i took es r) \<longleftrightarrow> True"
| "quiet (Record i d now) \<longleftrightarrow> True"
| "quiet _ \<longleftrightarrow> False"

text \<open>Once the sender is dropped nothing more is sent. A measure then bounds the steps other than
  timer ticks and signals: each of them lowers it, and no tick raises it, whatever it flushes.\<close>

fun steps_left :: "processor \<Rightarrow> nat" where
  "steps_left (Selecting b n) = (if batch_is_empty b then 3 else 6)"
| "steps_left (Appending b leave) = (if leave then 2 else 5)"
| "steps_left (Recording start n r leave) = (if leave then 1 else 4)"
| "steps_left Stopped = 0"
| "steps_left Spawned = 4"

definition drain_measure :: "'db BatchProcessor \<Rightarrow> nat" where
  "drain_measure s = 4 * length (bp_queue s) + sum_list (map steps_left (bp_processors s))"

lemma steps_left_branches:
  "steps_left (on_event config b e) \<le> 6" "steps_left (on_exit b) < steps_left (Selecting b n)"
  "steps_left (after_record now leave) = (if leave then 0 else 3)"
  "steps_left (begin_processor config now) \<le> 3"
  "steps_left (on_tick config now b) \<le> steps_left (Selecting b n)"
  "steps_left (notify_processor p) = steps_left p"
proof -
  show "steps_left (notify_processor p) = steps_left p" by (cases p) auto
qed (simp_all add: branch_defs Let_def)

lemma drain_measure_update:
  assumes "i < length (bp_processors s)" and "bp_processors t = (bp_processors s)[i := p]"
    and "bp_queue t = bp_queue s"
  shows "drain_measure t + steps_left (bp_processors s ! i) = drain_measure s + steps_left p"
  using sum_list_update_eq[OF assms(1), of steps_left p] assms(2,3) by (simp add: drain_measure_def)

lemma step_drains:
  "system_step R X s l t \<Longrightarrow> \<not> bp_sender_open s \<Longrightarrow>
     drain_measure t + (if quiet l then 1 else 0) \<le> drain_measure s"
proof (induction rule: system_step.induct)
  case (step_begin i s now)
  then show ?case
    using drain_measure_update[of i s "s\<lparr>bp_processors := (bp_processors s)[i := begin_processor (bp_config s) now]\<rparr>"
        "begin_processor (bp_config s) now"]
      steps_left_branches(4)[of "bp_config s" now] by simp
next
  case (step_recv i s b n e q)
  then show ?case
    using sum_list_update_eq[of i "bp_processors s" steps_left "on_event (bp_config s) b e"]
      steps_left_branches(1)[of "bp_config s" b e] by (simp add: drain_measure_def split: if_splits)
next
  case (step_recv_closed i s b n)
  then show ?case
    using drain_measure_update[of i s "s\<lparr>bp_processors := (bp_processors s)[i := on_exit b]\<rparr>"
        "on_exit b"]
      steps_left_branches(2)[of b n] by simp
next
  case (step_tick i s b n now)
  then show ?case
    using drain_measure_update[of i s "s\<lparr>bp_processors := (bp_processors s)[i := on_tick (bp_config s) now b]\<rparr>"
        "on_tick (bp_config s) now b"]
      steps_left_branches(5)[of "bp_config s" now b n] by simp
next
  case (step_shutdown s)
  then show ?case by (simp add: drain_measure_def comp_def steps_left_branches(6))
next
  case (step_notified i s b)
  then show ?case
    using drain_measure_update[of i s "s\<lparr>bp_processors := (bp_processors s)[i := on_exit b]\<rparr>"
        "on_exit b"]
      steps_left_branches(2)[of b True] by simp
next
  case (step_write i s b leave took r store start)
  then show ?case
    using drain_measure_update[of i s "s\<lparr>bp_store := store,
        bp_processors := (bp_processors s)[i := Recording start (batch_len b) r leave]\<rparr>"
        "Recording start (batch_len b) r leave"]
    by (simp split: if_splits)
next
  case (step_record i s start n r leave duration now)
  then show ?case
    using drain_measure_update[of i s "s\<lparr>bp_metrics := flush_record n start duration r (bp_metrics s),
        bp_processors := (bp_processors s)[i := after_record now leave]\<rparr>"
        "after_record now leave"]
    by (simp add: steps_left_branches(3) split: if_splits)
qed (simp_all add: drain_measure_def)

lemma step_stays_closed:
  "system_step R X s l t \<Longrightarrow> \<not> bp_sender_open s \<Longrightarrow> \<not> bp_sender_open t \<and> sent_event l = []"
  by (induction rule: system_step.induct) auto

lemma closed_run:
  "system_run R X s ls t \<Longrightarrow> \<not> bp_sender_open s \<Longrightarrow>
     \<not> bp_sender_open t \<and> sent ls = [] \<and> length (filter quiet ls) + drain_measure t \<le> drain_measure s"
proof (induction rule: system_run.induct)
  case (run_step s ls t l u)
  then show ?case
    using step_drains[OF run_step.hyps(2)] step_stays_closed[OF run_step.hyps(2)]
    by (auto split: if_splits)
qed simp

lemma quiet_sends_nothing: "\<forall>l\<in>set ls. quiet l \<Longrightarrow> sent ls = []"
proof (induction ls)
  case (Cons l ls)
  then show ?case by (cases l) auto
qed simp

text \<open>With the sender dropped, a processor that is not out of the loop can go on.\<close>

lemma quiet_progress:
  assumes "\<not> bp_sender_open s" and "p \<in> set (bp_processors s)" and "p \<noteq> Stopped"
  shows "\<exists>l t. system_step R X s l t \<and> quiet l"
proof -
  obtain i where i: "i < length (bp_processors s)" "bp_processors s ! i = p"
    using assms(2) by (auto simp: in_set_conv_nth)
  show ?thesis
  proof (cases p)
    case Spawned
    from step_begin[OF i(1) i(2)[unfolded Spawned]] quiet.simps show ?thesis by blast
  next
    case (Selecting b n)
    show ?thesis
    proof (cases "bp_queue s")
      case Nil
      from step_recv_closed[OF i(1) i(2)[unfolded Selecting] Nil assms(1)] quiet.simps
      show ?thesis by blast
    next
      case (Cons e q)
      from step_recv[OF i(1) i(2)[unfolded Selecting] Cons] quiet.simps show ?thesis by blast
    qed
  next
    case (Appending b leave)
    obtain r st where "flush_append R X (bp_config s) 0 (bp_store s) (batch_events b) = (r, st)"
      by (cases "flush_append R X (bp_config s) 0 (bp_store s) (batch_events b)")
    from step_write[OF i(1) i(2)[unfolded Appending] this] quiet.simps show ?thesis by blast
  next
    case (Recording start n r leave)
    from step_record[OF i(1) i(2)[unfolded Recording]] quiet.simps show ?thesis by blast
  qed (use assms(3) in simp)
qed

text \<open>As long as no shutdown was signalled, a processor leaves only when the channel is empty and
  closed.\<close>

fun notified :: "processor \<Rightarrow> bool" where
  "notified (Selecting b n) = n"
| "notified _ = False"

fun leaving :: "processor \<Rightarrow> bool" where
  "leaving (Selecting b n) = False"
| "leaving (Appending b leave) = leave"
| "leaving (Recording start n r leave) = leave"
| "leaving Stopped = True"
| "leaving Spawned = False"

definition exits_clean :: "'db BatchProcessor \<Rightarrow> bool" where
  "exits_clean s \<longleftrightarrow> (\<forall>p\<in>set (bp_processors s).
     \<not> notified p \<and> (leaving p \<longrightarrow> bp_queue s = [] \<and> \<not> bp_sender_open s))
     \<and> max_batch_delay (bp_config s) \<noteq> 0"

lemma leaving_branches [simp]:
  "\<not> notified (on_event config b e)" "\<not> leaving (on_event config b e)"
  "\<not> notified (on_exit b)" "leaving (on_exit b)"
  "\<not> notified (on_tick config now b)" "\<not> leaving (on_tick config now b)"
  "\<not> notified (after_record now leave)" "leaving (after_record now leave) = leave"
  "\<not> notified (begin_processor config now)" "leaving (begin_processor config now) \<longleftrightarrow> max_batch_delay config = 0"
  by (simp_all add: branch_defs Let_def)

lemma exits_clean_update:
  assumes "exits_clean s" and "bp_processors t = (bp_processors s)[i := p]"
    and "bp_queue s = [] \<longrightarrow> bp_queue t = []" and "bp_sender_open t = bp_sender_open s"
    and "\<not> notified p" and "leaving p \<longrightarrow> bp_queue t = [] \<and> \<not> bp_sender_open t"
    and "bp_config t = bp_config s"
  shows "exits_clean t"
  unfolding exits_clean_def assms(2,7)
proof (intro conjI ballI)
  show "max_batch_delay (bp_config s) \<noteq> 0" using assms(1) by (simp add: exits_clean_def)
next
  fix q assume "q \<in> set ((bp_processors s)[i := p])"
  then have "q = p \<or> q \<in> set (bp_processors s)" using set_update_subset_insert by fastforce
  then show "\<not> notified q" and "leaving q \<longrightarrow> bp_queue t = [] \<and> \<not> bp_sender_open t"
    using assms unfolding exits_clean_def by auto
qed

lemma exits_clean_nth:
  "exits_clean s \<Longrightarrow> i < length (bp_processors s) \<Longrightarrow> bp_processors s ! i = p \<Longrightarrow>
     \<not> notified p \<and> (leaving p \<longrightarrow> bp_queue s = [] \<and> \<not> bp_sender_open s)"
  unfolding exits_clean_def by (metis nth_mem)

lemma step_exits_clean: "system_step R X s l t \<Longrightarrow> exits_clean s \<Longrightarrow> l \<noteq> Shutdown \<Longrightarrow> exits_clean t"
proof (induction rule: system_step.induct)
  case (step_begin i s now)
  then show ?case
    by (intro exits_clean_update[OF step_begin(3), where i = i]) (auto simp: exits_clean_def)
next
  case (step_recv i s b n e q)
  then show ?case by (intro exits_clean_update[OF step_recv(4), where i = i]) auto
next
  case (step_recv_closed i s b n)
  then show ?case by (intro exits_clean_update[OF step_recv_closed(5), where i = i]) auto
next
  case (step_tick i s b n now)
  then show ?case by (intro exits_clean_update[OF step_tick(3), where i = i]) auto
next
  case (step_notified i s b)
  then show ?case using exits_clean_nth[OF step_notified(3,1,2)] by simp
next
  case (step_write i s b leave took r store start)
  then show ?case using exits_clean_nth[OF step_write(4,1,2)]
    by (intro exits_clean_update[OF step_write(4), where i = i]) auto
next
  case (step_record i s start n r leave duration now)
  then show ?case using exits_clean_nth[OF step_record(3,1,2)]
    by (intro exits_clean_update[OF step_record(3), where i = i]) auto
qed (auto simp: exits_clean_def)

lemma run_exits_clean:
  "system_run R X s ls t \<Longrightarrow> exits_clean s \<Longrightarrow> Shutdown \<notin> set ls \<Longrightarrow> exits_clean t"
  by (induction rule: system_run.induct) (auto dest: step_exits_clean)

lemma start_exits_clean: "max_batch_delay config \<noteq> 0 \<Longrightarrow> exits_clean (processor_start s config)"
  by (auto simp: exits_clean_def processor_start_def)

lemma drain:
  "exits_clean s \<Longrightarrow> \<not> bp_sender_open s \<Longrightarrow>
     \<exists>ls t. system_run R X s ls t \<and> (\<forall>l\<in>set ls. quiet l) \<and> exits_clean t
       \<and> (\<forall>p\<in>set (bp_processors t). p = Stopped)"
proof (induction "drain_measure s" arbitrary: s rule: less_induct)
  case less
  show ?case
  proof (cases "\<forall>p\<in>set (bp_processors s). p = Stopped")
    case True
    with less.prems show ?thesis using run_refl[of R X s] by fastforce
  next
    case False
    then obtain l u where l: "system_step R X s l u" "quiet l"
      using quiet_progress[OF less.prems(2)] by blast
    from l(2) have "l \<noteq> Shutdown" by auto
    with l have "exits_clean u" "\<not> bp_sender_open u"
      using step_exits_clean[OF l(1) less.prems(1)] step_stays_closed[OF l(1) less.prems(2)] by auto
    moreover have "drain_measure u < drain_measure s"
      using step_drains[OF l(1) less.prems(2)] l(2) by simp
    ultimately obtain ls t where
      "system_run R X u ls t" "\<forall>l\<in>set ls. quiet l" "exits_clean t" "\<forall>p\<in>set (bp_processors t). p = Stopped"
      using less.hyps by blast
    with system_run_Cons[OF l(1)] l(2) show ?thesis
      by (intro exI[of _ "l # ls"] exI[of _ t]) auto
  qed
qed

lemma run_length: "system_run R X s ls t \<Longrightarrow> length (bp_processors t) = length (bp_processors s)"
  by (induction rule: system_run.induct) (auto dest: step_length)

lemma stopped_step:
  assumes "system_step R X s l t" and "\<forall>p\<in>set (bp_processors s). p = Stopped"
  shows "bp_processors t = bp_processors s \<and> bp_queue t = bp_queue s \<and> bp_store t = bp_store s
    \<and> written_events l = []"
proof -
  have stop: "i < length (bp_processors s) \<Longrightarrow> bp_processors s ! i = Stopped" for i
    using assms(2) by simp
  have "map notify_processor (bp_processors s) = bp_processors s"
    using assms(2) by (intro map_idI) auto
  with assms(1) show ?thesis
    by (cases rule: system_step.cases) (auto simp: assms(2) dest: stop)
qed

lemma stopped_run:
  "system_run R X s ls t \<Longrightarrow> \<forall>p\<in>set (bp_processors s). p = Stopped \<Longrightarrow>
     bp_processors t = bp_processors s \<and> bp_queue t = bp_queue s \<and> bp_store t = bp_store s \<and> written ls = []"
proof (induction rule: system_run.induct)
  case (run_step s ls t l u)
  then show ?case using stopped_step[OF run_step.hyps(2)] by simp
qed simp

section \<open>A period of zero\<close>

lemma zero_delay_step:
  assumes "system_step R X s l t" and "max_batch_delay (bp_config s) = 0"
    and "set (bp_processors s) \<subseteq> {Spawned, Stopped}"
  shows "set (bp_processors t) \<subseteq> {Spawned, Stopped} \<and> bp_store t = bp_store s
    \<and> bp_queue t = bp_queue s @ sent_event l \<and> written_events l = [] \<and> bp_metrics t = bp_metrics s"
proof -
  have nth: "bp_processors s ! i \<in> {Spawned, Stopped}" if "i < length (bp_processors s)" for i
    using assms(3) that by (meson nth_mem subset_iff)
  have upd: "set ((bp_processors s)[i := begin_processor (bp_config s) now]) \<subseteq> {Spawned, Stopped}" for i now
    using set_update_subset_insert[of "bp_processors s" i] assms(2,3)
    by (fastforce simp: begin_processor_def)
  have "map notify_processor (bp_processors s) = bp_processors s"
    using assms(3) by (intro map_idI) auto
  with assms show ?thesis
    by (cases rule: system_step.cases) (auto dest: nth subsetD[OF upd])
qed

lemma zero_delay_run:
  "system_run R X s ls t \<Longrightarrow> max_batch_delay (bp_config s) = 0 \<Longrightarrow>
     set (bp_processors s) \<subseteq> {Spawned, Stopped} \<Longrightarrow>
     set (bp_processors t) \<subseteq> {Spawned, Stopped} \<and> bp_store t = bp_store s
     \<and> bp_queue t = bp_queue s @ sent ls \<and> written ls = [] \<and> bp_metrics t = bp_metrics s"
proof (induction rule: system_run.induct)
  case (run_step s ls t l u)
  then have "max_batch_delay (bp_config t) = 0" using run_config[OF run_step.hyps(1)] by simp
  from zero_delay_step[OF run_step.hyps(2) this] run_step show ?case by simp
qed simp

text \<open>Without a shutdown, processors that have all left their loop have left nothing behind.\<close>

lemma stopped_drained:
  assumes "system_run R X (processor_start s config) ls t"
    and "Shutdown \<notin> set ls" and "1 \<le> num_processors config" and "max_batch_delay config \<noteq> 0"
    and "\<forall>p\<in>set (bp_processors t). p = Stopped"
  shows "bp_queue t = [] \<and> mset (written ls) = mset (sent ls)"
proof -
  have clean: "exits_clean t" by (rule run_exits_clean[OF assms(1) start_exits_clean[OF assms(4)] assms(2)])
  have "length (bp_processors t) = num_processors config"
    using run_length[OF assms(1)] by (simp add: processor_start_def)
  with assms(3) obtain p where "p \<in> set (bp_processors t)" by (cases "bp_processors t") auto
  with clean assms(5) have empty: "bp_queue t = []" unfolding exits_clean_def by fastforce
  have "in_flight t = {#}" using in_flight_stopped[OF assms(5)] empty by simp
  then show ?thesis using run_conserves[OF assms(1)] empty by simp
qed

lemma drain_complete:
  assumes "system_run R X (processor_start s config) ls t"
    and "Shutdown \<notin> set ls" and "\<not> bp_sender_open t" and "1 \<le> num_processors config"
    and "max_batch_delay config \<noteq> 0"
  shows "\<exists>ks u. system_run R X t ks u \<and> (\<forall>l\<in>set ks. quiet l)
      \<and> (\<forall>p\<in>set (bp_processors u). p = Stopped) \<and> bp_queue u = []
      \<and> mset (written (ls @ ks)) = mset (sent ls)"
proof -
  have "exits_clean t" by (rule run_exits_clean[OF assms(1) start_exits_clean[OF assms(5)] assms(2)])
  from drain[OF this assms(3)] obtain ks u where run: "system_run R X t ks u"
    and quiet: "\<forall>l\<in>set ks. quiet l" and stopped: "\<forall>p\<in>set (bp_processors u). p = Stopped" by blast
  have "Shutdown \<notin> set (ls @ ks)" using assms(2) quiet by auto
  from stopped_drained[OF system_run_trans[OF run assms(1)] this assms(4,5) stopped]
  show ?thesis using run quiet stopped quiet_sends_nothing[OF quiet] by auto
qed

text \<open>And in whatever order the steps come, ticks among them: a bounded number of them are not ticks
  or signals, and at each point either such a step is possible or everything sent has been written.\<close>

lemma drains_always:
  assumes "system_run R X (processor_start s config) ls t"
    and "Shutdown \<notin> set ls" and "\<not> bp_sender_open t" and "1 \<le> num_processors config"
    and "max_batch_delay config \<noteq> 0" and "system_run R X t ks u" and "Shutdown \<notin> set ks"
  shows "length (filter quiet ks) \<le> drain_measure t
    \<and> ((\<exists>l v. system_step R X u l v \<and> quiet l)
       \<or> (\<forall>p\<in>set (bp_processors u). p = Stopped) \<and> bp_queue u = []
         \<and> mset (written (ls @ ks)) = mset (sent ls))"
proof -
  note closed = closed_run[OF assms(6,3)]
  show ?thesis
  proof (cases "\<forall>p\<in>set (bp_processors u). p = Stopped")
    case True
    have "Shutdown \<notin> set (ls @ ks)" using assms(2,7) by simp
    from stopped_drained[OF system_run_trans[OF assms(6,1)] this assms(4,5) True] True closed
    show ?thesis by auto
  next
    case False
    with quiet_progress[of u] closed show ?thesis by auto
  qed
qed

section \<open>A shutdown\<close>

text \<open>A notified processor leaves: it flushes the batch it holds, if there is one, and takes nothing
  from the channel.\<close>

lemma notified_leaves:
  assumes "i < length (bp_processors s)" and "bp_processors s ! i = Selecting b True"
  shows "\<exists>ks t. system_run R X s ks t \<and> bp_processors t = (bp_processors s)[i := Stopped]
    \<and> bp_queue t = bp_queue s \<and> written ks = batch_events b \<and> sent ks = []"
proof (cases "batch_is_empty b")
  case True
  with run_step[OF run_refl step_notified[OF assms]] show ?thesis
    by (fastforce simp: on_exit_def batch_is_empty_def)
next
  case False
  let ?s1 = "s\<lparr>bp_processors := (bp_processors s)[i := on_exit b]\<rparr>"
  obtain r st where f: "flush_append R X (bp_config ?s1) 0 (bp_store ?s1) (batch_events b) = (r, st)"
    by (cases "flush_append R X (bp_config ?s1) 0 (bp_store ?s1) (batch_events b)")
  let ?s2 = "?s1\<lparr>bp_store := st,
      bp_processors := (bp_processors ?s1)[i := Recording 0 (batch_len b) r True]\<rparr>"
  let ?s3 = "?s2\<lparr>bp_metrics := flush_record (batch_len b) 0 0 r (bp_metrics ?s2),
      bp_processors := (bp_processors ?s2)[i := after_record 0 True]\<rparr>"
  have "system_step R X ?s1 (Write i 0 (batch_events b) r) ?s2"
    using assms(1) False f by (intro step_write) (auto simp: on_exit_def)
  moreover have "system_step R X ?s2 (Record i 0 0) ?s3"
    using assms(1) by (intro step_record) auto
  ultimately have "system_run R X s [Notified i, Write i 0 (batch_events b) r, Record i 0 0] ?s3"
    using run_step[OF run_step[OF run_step[OF run_refl step_notified[OF assms, of R X]]]] by simp
  then show ?thesis
    by (intro exI[of _ "[Notified i, Write i 0 (batch_events b) r, Record i 0 0]"] exI[of _ ?s3])
      (simp add: after_record_def)
qed

lemma all_notified_leave:
  "k \<le> length (bp_processors s) \<Longrightarrow> \<forall>p\<in>set (bp_processors s). \<exists>b. p = Selecting b True \<Longrightarrow>
     \<exists>ks t. system_run R X s ks t
       \<and> bp_processors t = replicate k Stopped @ drop k (bp_processors s)
       \<and> bp_queue t = bp_queue s \<and> written ks = concat (map held (take k (bp_processors s)))
       \<and> sent ks = []"
proof (induction k)
  case 0
  show ?case using run_refl[of R X s] by (intro exI[of _ "[]"] exI[of _ s]) simp
next
  case (Suc k)
  then obtain ks t where t: "system_run R X s ks t"
    "bp_processors t = replicate k Stopped @ drop k (bp_processors s)"
    "bp_queue t = bp_queue s" "written ks = concat (map held (take k (bp_processors s)))"
    "sent ks = []" by auto
  from Suc.prems have k: "k < length (bp_processors s)" by simp
  with Suc.prems(2) obtain b where b: "bp_processors s ! k = Selecting b True" by (metis nth_mem)
  have nth: "k < length (bp_processors t)" "bp_processors t ! k = Selecting b True"
    using t(2) k b by (simp_all add: nth_append)
  have "(bp_processors t)[k := Stopped] = replicate (Suc k) Stopped @ drop (Suc k) (bp_processors s)"
    unfolding t(2) using k
    by (simp add: list_update_append Cons_nth_drop_Suc[symmetric] replicate_append_same)
  moreover have "take (Suc k) (bp_processors s) = take k (bp_processors s) @ [Selecting b True]"
    using k b by (simp add: take_Suc_conv_app_nth)
  moreover from notified_leaves[OF nth, of R X] obtain ms u where u: "system_run R X t ms u"
    "bp_processors u = (bp_processors t)[k := Stopped]" "bp_queue u = bp_queue t"
    "written ms = batch_events b" "sent ms = []" by blast
  ultimately show ?case
    using system_run_trans[OF u(1) t(1)] t(3-5) u(2-5)
    by (intro exI[of _ "ks @ ms"] exI[of _ u]) simp
qed

lemma shutdown_leaves:
  assumes "\<forall>p\<in>set (bp_processors s). \<exists>b n. p = Selecting b n"
  shows "\<exists>ks t. system_run R X s (Shutdown # ks) t
    \<and> (\<forall>p\<in>set (bp_processors t). p = Stopped) \<and> bp_queue t = bp_queue s
    \<and> written ks = concat (map held (bp_processors s)) \<and> sent ks = []"
proof -
  let ?s = "s\<lparr>bp_processors := map notify_processor (bp_processors s)\<rparr>"
  have "\<forall>p\<in>set (bp_processors ?s). \<exists>b. p = Selecting b True" using assms by fastforce
  from all_notified_leave[OF order_refl this, of R X] obtain ks t where t: "system_run R X ?s ks t"
    "bp_processors t = replicate (length (bp_processors s)) Stopped" "bp_queue t = bp_queue s"
    "written ks = concat (map held (bp_processors s))" "sent ks = []"
    by (auto simp: comp_def)
  from system_run_Cons[OF step_shutdown t(1)] have "system_run R X s (Shutdown # ks) t" .
  with t(2-) show ?thesis by (intro exI[of _ ks] exI[of _ t]) simp
qed

section \<open>A small system\<close>

definition one_processor :: BatchConfig where
  "one_processor = \<lparr>max_batch_size = 1, max_batch_delay = 10, buffer_size = 2, num_processors = 1,
     use_optimized_append = False, target_throughput = 1, enforce_append_only = True\<rparr>"

abbreviation small_start :: "bool \<Rightarrow> ram BatchProcessor" where
  "small_start z \<equiv> processor_start (demo_store z) one_processor"

lemmas small_simps = processor_start_def one_processor_def begin_processor_def on_event_def on_exit_def
  batch_add_event_def batch_is_full_def batch_is_empty_def event_batch_new_def Let_def

abbreviation small_ready :: "bool \<Rightarrow> ram BatchProcessor" where
  "small_ready z \<equiv> (small_start z)\<lparr>bp_processors := [Selecting (event_batch_new 0) False]\<rparr>"

lemma small_run_send:
  "system_run ram_db X (small_start z) [Begin 0 0, Send e] ((small_ready z)\<lparr>bp_queue := [e]\<rparr>)"
proof -
  have "system_step ram_db X (small_start z) (Begin 0 0) (small_ready z)"
    using step_begin[of 0 "small_start z" ram_db X 0] by (simp add: small_simps)
  from run_step[OF run_step[OF run_refl this] step_send[of "small_ready z" ram_db X e]] show ?thesis
    by (simp add: small_simps)
qed

lemma small_run_stranded:
  "system_run ram_db X (small_start z) [Begin 0 0, Send e, Shutdown, Notified 0]
     ((small_start z)\<lparr>bp_queue := [e], bp_processors := [Stopped]\<rparr>)"
proof -
  let ?s1 = "(small_ready z)\<lparr>bp_queue := [e]\<rparr>"
  let ?s2 = "?s1\<lparr>bp_processors := map notify_processor (bp_processors ?s1)\<rparr>"
  have "system_run ram_db X (small_start z) [Begin 0 0, Send e, Shutdown] ?s2"
    using run_step[OF small_run_send step_shutdown[of ram_db X ?s1]] by simp
  from run_step[OF this step_notified[of 0 ?s2 "event_batch_new 0" ram_db X]] show ?thesis
    by (simp add: small_simps)
qed

lemma small_run_appending:
  "system_run ram_db X (small_start z) [Begin 0 0, Send e, Recv 0 e]
     ((small_start z)\<lparr>bp_processors := [Appending \<lparr>batch_events = [e], created_at = 0\<rparr> False]\<rparr>)"
  using run_step[OF small_run_send step_recv[of 0 "(small_ready z)\<lparr>bp_queue := [e]\<rparr>"
        "event_batch_new 0" False e "[]" ram_db X]]
  by (simp add: small_simps)

lemma small_run_written:
  "\<exists>s. system_run ram_db (table_libs [root_event 1 5]) (small_start True)
      [Begin 0 0, Send (root_event 1 5), Recv 0 (root_event 1 5), Write 0 0 [root_event 1 5] (Inr None)] s
    \<and> bp_processors s = [Recording 0 1 (Inr None) False]"
proof -
  let ?X = "table_libs [root_event 1 5]" and ?e = "root_event 1 5"
  let ?s = "(small_start True)\<lparr>bp_processors := [Appending \<lparr>batch_events = [?e], created_at = 0\<rparr> False]\<rparr>"
  obtain st where f: "flush_append ram_db ?X (bp_config ?s) 0 (bp_store ?s) [?e] = (Inr None, st)"
    by (simp add: flush_append_def small_simps append_events_def demo_simps)
  have "system_step ram_db ?X ?s (Write 0 0 [?e] (Inr None))
      (?s\<lparr>bp_store := st, bp_processors := [Recording 0 1 (Inr None) False]\<rparr>)"
    using step_write[of 0 ?s "\<lparr>batch_events = [?e], created_at = 0\<rparr>" False ram_db ?X 0 "Inr None" st 0] f
    by (simp add: batch_len_def)
  from run_step[OF small_run_appending this]
  show ?thesis by (intro exI[of _ "?s\<lparr>bp_store := st, bp_processors := [Recording 0 1 (Inr None) False]\<rparr>"]) simp
qed

lemma small_run_recorded:
  "\<exists>s. system_run ram_db (table_libs [root_event 1 5]) (small_start True)
      [Begin 0 0, Send (root_event 1 5), Recv 0 (root_event 1 5), Write 0 0 [root_event 1 5] (Inr None), Record 0 7 7] s
    \<and> bp_processors s = [Selecting (event_batch_new 7) False]"
proof -
  from small_run_written obtain s where s: "system_run ram_db (table_libs [root_event 1 5]) (small_start True)
      [Begin 0 0, Send (root_event 1 5), Recv 0 (root_event 1 5), Write 0 0 [root_event 1 5] (Inr None)] s"
    "bp_processors s = [Recording 0 1 (Inr None) False]" by blast
  from run_step[OF s(1) step_record[of 0 s 0 1 "Inr None" False ram_db "table_libs [root_event 1 5]" 7 7]] s(2)
  show ?thesis by (force simp: after_record_def)
qed

section \<open>Properties\<close>



text \<open>C34: No batch handed to the store is empty, or larger than the configured size, except that a
  batch of one event is written whatever that size is (so also when it is 0); and the channel never
  holds more than its capacity. This is so in every run, for every configuration.\<close>

theorem processors_bound_batches:
  assumes "system_run R X (processor_start s config) ls t"
  shows "(\<forall>i took es r. Write i took es r \<in> set ls \<longrightarrow>
      1 \<le> length es \<and> length es \<le> max 1 (max_batch_size config))
    \<and> length (bp_queue t) \<le> buffer_size config"
proof
  from run_bounded[OF assms start_bounded]
  have "\<forall>l\<in>set ls. batch_fits (largest_batch config) l" by (simp add: processor_start_def)
  then show "\<forall>i took es r. Write i took es r \<in> set ls \<longrightarrow>
      1 \<le> length es \<and> length es \<le> max 1 (max_batch_size config)"
    by (fastforce simp: Suc_le_eq largest_batch_def)
  show "length (bp_queue t) \<le> buffer_size config"
    using run_queue[OF assms] run_config[OF assms] by (simp add: processor_start_def)
qed

theorem processors_bound_batches_witness:
  "\<exists>s es. bp_processors (s :: ram BatchProcessor) = [Recording 0 1 (Inr None) False]
     \<and> system_run ram_db (table_libs [root_event 1 5]) (small_start True)
         [Begin 0 0, Send (root_event 1 5), Recv 0 (root_event 1 5), Write 0 0 es (Inr None)] s
     \<and> 1 \<le> length es \<and> length es \<le> 1 \<and> length (bp_queue s) \<le> 2"
proof -
  from small_run_written obtain s where s: "system_run ram_db (table_libs [root_event 1 5])
      (small_start True) [Begin 0 0, Send (root_event 1 5), Recv 0 (root_event 1 5),
        Write 0 0 [root_event 1 5] (Inr None)] s"
    "bp_processors s = [Recording 0 1 (Inr None) False]" by blast
  from processors_bound_batches[OF s(1)] s show ?thesis
    by (intro exI[of _ s] exI[of _ "[root_event 1 5]"]) (simp add: one_processor_def)
qed

text \<open>C12: Whatever the interleaving of the processors, the store stays well formed, loses or
  changes no event, gains only events that were written from batches, and holds every key of a
  batch that was written successfully.\<close>

theorem processors_append_only:
  assumes "event_store_env R contents X" and "store_wf X contents s"
    and "system_run R X (processor_start s config) ls t"
  shows "store_wf X contents (bp_store t)
    \<and> event_view X contents s \<subseteq>\<^sub>m event_view X contents (bp_store t)
    \<and> ran (event_view X contents (bp_store t)) \<subseteq> ran (event_view X contents s) \<union> set (written ls)
    \<and> (\<forall>i took es x. Write i took es (Ok x) \<in> set ls \<longrightarrow>
         generate_event_key X ` set es \<subseteq> dom (event_view X contents (bp_store t)))"
  using event_store_env.system_run_store[OF assms(1,3)] assms(2)
  by (simp add: processor_start_def image_subset_iff)

theorem processors_append_only_witness:
  "\<exists>s. generate_event_key (table_libs [root_event 1 5]) (root_event 1 5)
     \<in> dom (event_view (table_libs [root_event 1 5]) ram_contents (bp_store (s :: ram BatchProcessor)))"
proof -
  from small_run_written obtain s where "system_run ram_db (table_libs [root_event 1 5])
      (small_start True) [Begin 0 0, Send (root_event 1 5), Recv 0 (root_event 1 5),
        Write 0 0 [root_event 1 5] (Inr None)] s" by blast
  from processors_append_only[OF demo_env demo_wf this] show ?thesis by auto
qed

text \<open>C13: The metrics tell the truth about the writes: whenever no processor stands between an
  append and its record, the counters of processed events, processed batches and errors are (modulo
  \<open>2 ^ 64\<close>) the events and batches written successfully and the writes that failed.\<close>

theorem processors_metrics_exact:
  assumes "system_run R X (processor_start s config) ls t" and "settled t"
  shows "total_events_processed (get_metrics t) = word_of_nat (sum_list (map (label_weight ok_events) ls))
    \<and> total_batches_processed (get_metrics t) = word_of_nat (sum_list (map (label_weight ok_batches) ls))
    \<and> processing_errors (get_metrics t) = word_of_nat (sum_list (map (label_weight failures) ls))"
  using count_events.settled_tally[OF assms(1) _ assms(2)]
    count_batches.settled_tally[OF assms(1) _ assms(2)]
    count_failures.settled_tally[OF assms(1) _ assms(2)]
  by (simp add: metrics_default_def get_metrics_def)

theorem processors_metrics_exact_witness:
  "\<exists>s. total_events_processed (get_metrics (s :: ram BatchProcessor)) = 1"
proof -
  from small_run_recorded obtain s where s: "system_run ram_db (table_libs [root_event 1 5])
      (small_start True) [Begin 0 0, Send (root_event 1 5), Recv 0 (root_event 1 5),
        Write 0 0 [root_event 1 5] (Inr None), Record 0 7 7] s"
    "bp_processors s = [Selecting (event_batch_new 7) False]" by blast
  from s(2) have "settled s" by (simp add: settled_def)
  from processors_metrics_exact[OF s(1) this] show ?thesis by auto
qed

text \<open>C11: Once the sender is dropped the system drains, if there is a processor, if the batch delay is
  not 0 and if no shutdown is signalled. A run goes on from there to a state in which every processor
  is out of its loop, the channel is empty, and every event sent has been handed to the store, each
  as often as it was sent. And no other schedule avoids it: in every continuation, timer ticks and
  their flushes included, the steps other than ticks are bounded by a measure of the state at which
  it starts, and wherever the continuation has arrived, either another such step is possible or that
  final state has been reached.\<close>

theorem closed_system_drains:
  assumes "system_run R X (processor_start s config) ls t"
    and "Shutdown \<notin> set ls" and "\<not> bp_sender_open t" and "1 \<le> num_processors config"
    and "max_batch_delay config \<noteq> 0"
  shows "(\<exists>ks u. system_run R X t ks u \<and> (\<forall>l\<in>set ks. quiet l)
      \<and> (\<forall>p\<in>set (bp_processors u). p = Stopped) \<and> bp_queue u = []
      \<and> mset (written (ls @ ks)) = mset (sent ls))
    \<and> (\<forall>ks u. system_run R X t ks u \<and> Shutdown \<notin> set ks \<longrightarrow>
        length (filter quiet ks) \<le> drain_measure t
        \<and> ((\<exists>l v. system_step R X u l v \<and> quiet l)
           \<or> (\<forall>p\<in>set (bp_processors u). p = Stopped) \<and> bp_queue u = []
             \<and> mset (written (ls @ ks)) = mset (sent ls)))"
  using drain_complete[OF assms] drains_always[OF assms] by blast

theorem closed_system_drains_witness:
  "\<exists>t ks u. system_run ram_db three_libs (small_start True) [Begin 0 0, Send (root_event 9 9), CloseSender] t
     \<and> system_run ram_db three_libs t ks u
     \<and> mset (written ([Begin 0 0, Send (root_event 9 9), CloseSender] @ ks)) = {#root_event 9 9#}"
proof -
  let ?t = "(small_ready True)\<lparr>bp_queue := [root_event 9 9], bp_sender_open := False\<rparr>"
  have r: "system_run ram_db three_libs (small_start True) [Begin 0 0, Send (root_event 9 9), CloseSender] ?t"
    using run_step[OF small_run_send step_close] by simp
  from closed_system_drains[OF r] obtain ks u where "system_run ram_db three_libs ?t ks u"
      "mset (written ([Begin 0 0, Send (root_event 9 9), CloseSender] @ ks)) = {#root_event 9 9#}"
    by (auto simp: one_processor_def)
  with r show ?thesis by blast
qed



text \<open>A processor that is flushing when the shutdown is signalled misses it: the signal leaves
  it as it was, and after its flush it is back at the \<open>select!\<close> with no notification.\<close>

theorem flushing_processor_misses_shutdown:
  assumes "system_step R X s Shutdown t" and "i < length (bp_processors s)"
    and "bp_processors s ! i = Appending b False"
    and "system_step R X t (Write i took es r) u" and "system_step R X u (Record i d now) v"
  shows "bp_processors t ! i = Appending b False
    \<and> bp_processors v ! i = Selecting (event_batch_new now) False"
proof -
  have t: "bp_processors t = map notify_processor (bp_processors s)"
    using assms(1) by (cases rule: system_step.cases) auto
  with assms(2,3) have ti: "bp_processors t ! i = Appending b False" by simp
  have i: "i < length (bp_processors t)" using assms(2) t by simp
  from write_stepD[OF assms(4)] ti obtain start
    where u: "bp_processors u = (bp_processors t)[i := Recording start (batch_len b) r False]" by auto
  have "bp_processors v ! i = after_record now False"
    using assms(5) i by (cases rule: system_step.cases) (auto simp: u)
  with ti show ?thesis by (simp add: after_record_def)
qed

theorem flushing_processor_misses_shutdown_witness:
  "\<exists>s v. system_run ram_db three_libs (small_start True) [Begin 0 0, Send (root_event 9 9), Recv 0 (root_event 9 9)] s
     \<and> system_run ram_db three_libs s [Shutdown, Write 0 0 [root_event 9 9] (fst (flush_append ram_db
          three_libs one_processor 0 (demo_store True) [root_event 9 9])), Record 0 7 7] v
     \<and> bp_processors v ! 0 = Selecting (event_batch_new 7) False"
proof -
  let ?b = "\<lparr>batch_events = [root_event 9 9], created_at = 0\<rparr>"
  let ?s = "(small_start True)\<lparr>bp_processors := [Appending ?b False]\<rparr>"
  let ?f = "flush_append ram_db three_libs one_processor 0 (demo_store True) [root_event 9 9]"
  let ?u = "?s\<lparr>bp_store := snd ?f, bp_processors := [Recording 0 1 (fst ?f) False]\<rparr>"
  have 1: "system_step ram_db three_libs ?s Shutdown ?s"
    using step_shutdown[of ram_db three_libs ?s] by simp
  have 2: "system_step ram_db three_libs ?s (Write 0 0 [root_event 9 9] (fst ?f)) ?u"
    using step_write[of 0 ?s ?b False ram_db three_libs 0 "fst ?f" "snd ?f" 0]
    by (simp add: batch_len_def processor_start_def)
  obtain v where 3: "system_step ram_db three_libs ?u (Record 0 7 7) v"
    using step_record[of 0 ?u 0 1 "fst ?f" False] by fastforce
  have "system_run ram_db three_libs ?s [Shutdown, Write 0 0 [root_event 9 9] (fst ?f), Record 0 7 7] v"
    by (rule system_run_Cons[OF 1 system_run_Cons[OF 2 system_run_Cons[OF 3 run_refl]]])
  moreover have "bp_processors v ! 0 = Selecting (event_batch_new 7) False"
    using flushing_processor_misses_shutdown[OF 1 _ _ 2 3] by simp
  ultimately show ?thesis using small_run_appending by blast
qed



end
