(* ===== verification/StoreLog.thy ===== *)
theory StoreLog
  imports EventQueries
begin

text \<open>
  The log of a store after writes: what the appends of \<open>EventStore\<close> add to what the queries of
  \<open>EventQueries\<close> return. A database that never fails (\<open>reliable_store\<close>) accepts every batch of
  fresh events the serializer can encode.
\<close>

section \<open>The log after a write\<close>

lemma find_unique:
  "e \<in> set es \<Longrightarrow> \<forall>d\<in>set es. event_id d = event_id e \<longrightarrow> d = e \<Longrightarrow>
     find (\<lambda>d. event_id d = event_id e) es = Some e"
  by (induction es) auto

lemma append_keeps_serializer:
  "append_event R X s e = (r, s') \<Longrightarrow> es_serializer s' = es_serializer s"
  "append_events R X s es = (r', s') \<Longrightarrow> es_serializer s' = es_serializer s"
  by (auto simp: append_event_def append_events_def write_batch_def Let_def
      split: sum.splits option.splits prod.splits if_splits)

context event_store_env
begin

lemma log_determined:
  assumes "store_wf X contents s" and "set (event_log X contents s) = set es"
    and "distinct (map (generate_event_key X) es)"
  shows "event_log X contents s = sort_key (generate_event_key X) es"
proof (rule map_sorted_distinct_set_unique[where f = "generate_event_key X"])
  have "sorted_wrt (<) (map (generate_event_key X) (event_log X contents s))"
    by (rule log_key_sorted[OF assms(1)])
  then show "sorted (map (generate_event_key X) (event_log X contents s))"
    and "distinct (map (generate_event_key X) (event_log X contents s))"
    by (simp_all add: strict_sorted_iff)
  show "inj_on (generate_event_key X)
      (set (event_log X contents s) \<union> set (sort_key (generate_event_key X) es))"
    using assms(2,3) by (simp add: distinct_map)
  show "distinct (map (generate_event_key X) (sort_key (generate_event_key X) es))"
    using assms(3) by (simp add: distinct_map)
qed (use assms(2) in simp_all)

lemma view_log: "event_view X contents s k = Some e \<Longrightarrow> e \<in> set (event_log X contents s)"
  unfolding set_event_log by (auto simp: ran_def)

lemma log_view: "store_wf X contents s \<Longrightarrow> e \<in> set (event_log X contents s) \<Longrightarrow>
    event_view X contents s (generate_event_key X e) = Some e"
  unfolding set_event_log by (auto simp: ran_def dest: view_key)

lemma log_distinct:
  assumes "store_wf X contents s" and "distinct (map (generate_event_key X) es)"
    and "\<forall>e\<in>set es. event_view X contents s (generate_event_key X e) = None"
  shows "distinct (map (generate_event_key X) (event_log X contents s @ es))"
proof -
  have "distinct (map (generate_event_key X) (event_log X contents s))"
    using log_key_sorted[OF assms(1)] by (simp add: strict_sorted_iff)
  moreover have "generate_event_key X d \<noteq> generate_event_key X e"
    if "d \<in> set (event_log X contents s)" "e \<in> set es" for d e
    using log_view[OF assms(1) that(1)] assms(3) that(2) by fastforce
  ultimately show ?thesis using assms(2) by (simp add: image_def disjoint_iff) metis
qed

lemma log_after_append:
  assumes "store_wf X contents s" and "append_events R X s es = (Inr (), s')"
    and "distinct (map (generate_event_key X) es)"
  shows "store_wf X contents s'
    \<and> event_log X contents s' = sort_key (generate_event_key X) (event_log X contents s @ es)"
proof -
  note fresh = plain.append_Ok[OF assms(1,2)] and wf = plain.append_inv[OF assms(1,2)]
  have "set (event_log X contents s') = set (event_log X contents s @ es)"
  proof (intro set_eqI iffI)
    fix e assume "e \<in> set (event_log X contents s')"
    from plain.append_origin[OF assms(1,2) log_view[OF wf this]]
    show "e \<in> set (event_log X contents s @ es)" using view_log by auto
  next
    fix e assume "e \<in> set (event_log X contents s @ es)"
    moreover have "e \<in> set (event_log X contents s')" if "e \<in> set (event_log X contents s)"
      using log_view[OF assms(1) that] plain.append_only[OF assms(1,2)]
      by (intro view_log[of _ "generate_event_key X e"]) (auto simp: map_le_def dom_def)
    moreover have "e \<in> set (event_log X contents s')" if "e \<in> set es"
      by (rule view_log[OF plain.append_stores[OF assms(1,2,3) that]])
    ultimately show "e \<in> set (event_log X contents s')" by auto
  qed
  from log_determined[OF wf this log_distinct[OF assms(1,3)]] fresh wf show ?thesis by blast
qed

lemma log_after_event:
  assumes "store_wf X contents s" and "append_event R X s e = (Inr (), s')"
  shows "store_wf X contents s'
    \<and> event_log X contents s' = sort_key (generate_event_key X) (event_log X contents s @ [e])"
proof -
  from append_event_step[OF assms]
  have wf: "store_wf X contents s'" and new: "event_view X contents s (generate_event_key X e) = None"
    and view: "event_view X contents s' = (event_view X contents s)(generate_event_key X e \<mapsto> e)"
    by auto
  have "set (event_log X contents s') = set (event_log X contents s @ [e])"
    unfolding view set_event_log set_append using new by (simp add: ran_map_upd set_event_log)
  from log_determined[OF wf this log_distinct[OF assms(1)]] new wf show ?thesis by simp
qed

lemma query_everything:
  assumes "store_wf X contents s" and "iterates R (es_db s) Start"
  shows "query_events R X s query_all = Inr \<lparr>events = take 1000 (event_log X contents s),
    total_count = None, has_more = (1000 \<le> length (event_log X contents s))\<rparr>"
proof -
  have all: "filter (type_ok query_all) es = es" "takeWhile (end_ok query_all) es = es"
    "filter (account_ok query_all) es = es" "from_start X query_all es = es"
    "page query_all es = take 1000 es" for es
    by (simp_all add: takeWhile_eq_all_conv end_ok_def type_ok_def account_ok_def from_start_def
        page_def query_limit_def query_offset_def query_all_def)
  have "iterates R (es_db s) (query_mode X query_all)"
    using assms(2) by (simp add: query_mode_def query_all_def)
  from query_events_eq[OF assms(1) this] show ?thesis
    by (simp only: all Let_def) (auto simp: query_limit_def query_all_def)
qed

end

section \<open>A database that never fails\<close>

definition encodable :: "Libs \<Rightarrow> EventSerializer \<Rightarrow> EventEnvelope \<Rightarrow> bool" where
  "encodable X ser e \<longleftrightarrow> (\<exists>b. serialize X ser e = Inr b)"

locale reliable_store = event_store_env R contents X
  for R :: "'db RocksDB" and contents :: "'db \<Rightarrow> (key \<times> val) list" and X :: Libs +
  assumes get_total: "\<exists>r. db_get R d k = Inr r"
    and put_total: "\<exists>d'. db_put_opt R d k v wo = (Inr (), d')"
    and write_total: "\<exists>d'. db_write_opt R d b wo = (Inr (), d')"
    and iterates_total: "iterates R d mode"
begin

lemma reliable_get:
  assumes "store_wf X contents s" and "event_view X contents s k = None"
  shows "db_get R (es_db s) k = Inr None"
proof -
  obtain r where "db_get R (es_db s) k = Inr r" using get_total by blast
  with get_Ok[OF this] assms show ?thesis by (simp add: view_None_iff)
qed

lemma reliable_write: "\<exists>s'. write_batch R s bs sync x = (Inr x, s')"
  using write_total[of "es_db s" bs "\<lparr>wo_sync = sync, wo_disable_wal = False\<rparr>"]
  by (auto simp: write_batch_def)

lemma reliable_absent:
  "store_wf X contents s \<Longrightarrow> \<forall>e\<in>set es. event_view X contents s (generate_event_key X e) = None \<Longrightarrow>
     all_absent R X s es"
  by (simp add: all_absent_def reliable_get)

lemma encodable_batch: "\<forall>e\<in>set es. encodable X ser e \<Longrightarrow> \<exists>bs. encoded X ser es bs"
proof (induction es)
  case Nil
  show ?case by (rule exI[of _ "[]"]) simp
next
  case (Cons e es)
  then obtain bs v where "encoded X ser es bs" "serialize X ser e = Inr v"
    by (auto simp: encodable_def)
  then have "encoded X ser (e # es) ((generate_event_key X e, v) # bs)" by simp
  then show ?case ..
qed

text \<open>Each append operation accepts fresh events that can be encoded.\<close>

lemma reliable_append_events:
  assumes "store_wf X contents s" and "\<forall>e\<in>set es. encodable X (es_serializer s) e"
    and "\<forall>e\<in>set es. event_view X contents s (generate_event_key X e) = None"
  shows "\<exists>s'. append_events R X s es = (Inr (), s')"
proof -
  from encodable_batch[OF assms(2)] obtain bs where "encoded X (es_serializer s) es bs" by blast
  with reliable_absent[OF assms(1,3)] have "append_loop R X s es [] = Inr bs"
    by (simp add: append_loop_encoded)
  then show ?thesis using reliable_write[of s bs _ "()"] by (simp add: append_events_def)
qed

lemma reliable_append_optimized:
  assumes "store_wf X contents s" and "\<forall>e\<in>set es. encodable X (es_serializer s) e"
    and "\<forall>e\<in>set es. event_view X contents s (generate_event_key X e) = None"
  shows "\<exists>x s'. append_events_optimized R X elapsed s es = (Inr x, s')"
proof -
  from encodable_batch[OF assms(2)] obtain bs where "encoded X (es_serializer s) es bs" by blast
  moreover have "validate_loop R X s es = Inr ()"
    using reliable_absent[OF assms(1,3)] by (simp add: validate_loop_Ok_iff)
  ultimately show ?thesis
    using build_loop_encoded[of X "es_serializer s" es bs "sum_list (map (\<lambda>(k, v). length k + length v) bs)"]
    by (auto simp: append_events_optimized_def intro: reliable_write exI)
qed

lemma reliable_append_event:
  assumes "store_wf X contents s" and "encodable X (es_serializer s) e"
    and "event_view X contents s (generate_event_key X e) = None"
  shows "\<exists>s'. append_event R X s e = (Inr (), s') \<and> es_serializer s' = es_serializer s"
proof -
  from assms(2) obtain v where "serialize X (es_serializer s) e = Inr v" by (auto simp: encodable_def)
  then show ?thesis
    using reliable_get[OF assms(1,3)]
      put_total[of "es_db s" "generate_event_key X e" v "\<lparr>wo_sync = sync_writes (es_config s), wo_disable_wal = False\<rparr>"]
    by (auto simp: append_event_def)
qed

end

interpretation ram_store: reliable_store ram_db ram_contents "table_libs tbl" for tbl
  by unfold_locales (auto simp: ram_db_def iterates_def)

text \<open>The table codec encodes the events of a table of at most 256.\<close>

lemma position_in: "x \<in> set ys \<Longrightarrow> \<exists>n. position x ys = Some n"
  by (induction ys) auto

lemma table_encodable:
  assumes "e \<in> set tbl" and "length tbl \<le> 256"
  shows "encodable (table_libs tbl) ser e"
proof -
  from position_in[OF assms(1)] obtain n where "position e tbl = Some n" by blast
  with position_nth[OF this] assms(2) show ?thesis
    by (simp add: encodable_def table_simps)
qed

lemma ram_reliable: "reliable_store ram_db ram_contents (table_libs tbl)"
  by (rule ram_store.reliable_store_axioms)

end
