(* ===== verification/BatchStore.thy ===== *)
theory BatchStore
  imports BatchSystem StoreLog
begin

text \<open>
  The batch processors and the store they write to: what the log holds after a run, and that over a
  database that never fails every flush succeeds, so that a drained system has stored every event.
\<close>

section \<open>The log after a run of the processors\<close>

context event_store_env
begin

lemma log_after_run:
  assumes "system_run R X (processor_start s config) ls t" and "store_wf X contents s"
    and "in_flight t = {#}" and "\<forall>i took es r. Write i took es r \<in> set ls \<longrightarrow> \<not> isl r"
    and "distinct (map (generate_event_key X) (event_log X contents s @ sent ls))"
  shows "store_wf X contents (bp_store t)
    \<and> event_log X contents (bp_store t) =
        sort_key (generate_event_key X) (event_log X contents s @ sent ls)"
proof -
  let ?log = "event_log X contents s" and ?key = "generate_event_key X"
  have "store_wf X contents (bp_store (processor_start s config))"
    and "event_view X contents (bp_store (processor_start s config)) = event_view X contents s"
    using assms(2) by (simp_all add: processor_start_def)
  note run = system_run_store[OF assms(1) this(1), unfolded this(2)]
  have store: "store_wf X contents (bp_store t)"
    "event_view X contents s \<subseteq>\<^sub>m event_view X contents (bp_store t)"
    "ran (event_view X contents (bp_store t)) \<subseteq> ran (event_view X contents s) \<union> set (written ls)"
    "\<And>i took es x e. Write i took es (Inr x) \<in> set ls \<Longrightarrow> e \<in> set es \<Longrightarrow>
       ?key e \<in> dom (event_view X contents (bp_store t))"
    using run by blast+
  have "mset (written ls) = mset (sent ls)"
    using run_conserves[OF assms(1)] assms(3) by simp
  then have sent: "set (written ls) = set (sent ls)" by (rule mset_eq_setD)
  have sub: "set (event_log X contents (bp_store t)) \<subseteq> set (?log @ sent ls)"
    using store(3) by (simp add: set_event_log sent)
  have "e \<in> set (event_log X contents (bp_store t))" if "e \<in> set (?log @ sent ls)" for e
  proof -
    have "?key e \<in> dom (event_view X contents (bp_store t))"
    proof (cases "e \<in> set ?log")
      case True
      then show ?thesis
        using map_le_implies_dom_le[OF store(2)] log_view[OF assms(2) True] by blast
    next
      case False
      with that sent have "e \<in> set (written ls)" by auto
      then obtain l where l: "l \<in> set ls" "e \<in> set (written_events l)"
        by (auto simp: written_def)
      then obtain i took es r where w: "Write i took es r \<in> set ls" "e \<in> set es"
        by - (cases l, auto)
      from assms(4) w(1) have "\<not> isl r" by blast
      then obtain x where "r = Inr x" by (cases r) auto
      with store(4) w show ?thesis by blast
    qed
    then obtain d where d: "event_view X contents (bp_store t) (?key e) = Some d" by blast
    then have "d \<in> set (?log @ sent ls)" using sub view_log by blast
    moreover have "?key d = ?key e" by (rule view_key[OF store(1) d])
    ultimately have "d = e" using assms(5) that by (metis distinct_map inj_on_def)
    with d show ?thesis by (blast intro: view_log)
  qed
  with sub have "set (event_log X contents (bp_store t)) = set (?log @ sent ls)" by blast
  from log_determined[OF store(1) this assms(5)] store(1) show ?thesis by blast
qed

end

context event_store_env
begin

text \<open>At any point of any run, whatever failed, the store holds nothing but what it held and what was
  sent.\<close>

lemma run_log_origin:
  assumes "system_run R X (processor_start s config) ls t" and "store_wf X contents s"
  shows "store_wf X contents (bp_store t)
    \<and> set (event_log X contents s) \<subseteq> set (event_log X contents (bp_store t))
    \<and> set (event_log X contents (bp_store t)) \<subseteq> set (event_log X contents s) \<union> set (sent ls)"
proof -
  have "store_wf X contents (bp_store (processor_start s config))"
    using assms(2) by (simp add: processor_start_def)
  note run = system_run_store[OF assms(1) this]
  have "mset (written ls) \<subseteq># mset (sent ls)"
    using run_conserves[OF assms(1)] by (simp, metis mset_subset_eq_add_right)
  then have "set (written ls) \<subseteq> set (sent ls)" by (metis set_mset_mono set_mset_mset)
  moreover have "ran (event_view X contents s) \<subseteq> ran (event_view X contents (bp_store t))"
    using run unfolding processor_start_def by (auto simp: map_le_def ran_def) (metis domI)
  ultimately show ?thesis using run by (auto simp: set_event_log processor_start_def)
qed

end

section \<open>Flushes of a store that never fails\<close>

lemma optimized_keeps_serializer:
  "append_events_optimized R X took s es = (r, s') \<Longrightarrow> es_serializer s' = es_serializer s"
  by (auto simp: append_events_optimized_def write_batch_def Let_def
      split: sum.splits option.splits prod.splits if_splits)

lemma flush_keeps_serializer:
  "flush_append R X config took s es = (r, s') \<Longrightarrow> es_serializer s' = es_serializer s"
  by (cases "append_events R X s es"; cases "append_events_optimized R X took s es")
    (auto simp: flush_append_def split: if_splits
      dest: optimized_keeps_serializer append_keeps_serializer(2))

lemma run_serializer:
  "system_run R X s ls t \<Longrightarrow> es_serializer (bp_store t) = es_serializer (bp_store s)"
proof (induction rule: system_run.induct)
  case (run_step s ls t l u)
  have "es_serializer (bp_store u) = es_serializer (bp_store t)"
    using run_step.hyps(2) by (cases rule: system_step.cases) (auto dest: flush_keeps_serializer)
  with run_step.IH show ?case by simp
qed simp

lemma held_in_flight:
  assumes "i < length (bp_processors s)" and "e \<in> set (held (bp_processors s ! i))"
  shows "e \<in># in_flight s"
proof -
  have "e \<in># sum_list (map (\<lambda>p. mset (held p)) ps)" if "i < length ps" "e \<in> set (held (ps ! i))"
    for ps :: "processor list" and i
    using that
  proof (induction ps arbitrary: i)
    case (Cons p ps)
    then show ?case by (cases i) auto
  qed simp
  from this[OF assms] show ?thesis by (simp add: in_flight_def)
qed

text \<open>With distinct keys, what is still in flight has the key of nothing written.\<close>

lemma distinct_parts:
  assumes "f + mset ws = mset es" and "distinct (map key es)" and "e \<in># f" and "d \<in> set ws"
  shows "key d \<noteq> key e"
proof
  assume "key d = key e"
  moreover have "d \<in> set es" "e \<in> set es"
    using assms by (metis mset_eq_setD set_mset_mset set_mset_union UnCI)+
  ultimately have "d = e" using assms(2) by (metis distinct_map inj_on_def)
  have "count (mset es) e = count f e + count (mset ws) e" using assms(1) by (metis count_union)
  moreover have "0 < count f e" "0 < count (mset ws) e" using assms(3,4) \<open>d = e\<close> by auto
  moreover have "distinct es" using assms(2) by (simp add: distinct_map)
  then have "count (mset es) e \<le> 1" by (simp add: distinct_count_atmost_1)
  ultimately show False by linarith
qed

text \<open>When every write succeeds, the counters count every event and no failure.\<close>

lemma ok_weights:
  "\<forall>i took es r. Write i took es r \<in> set ls \<longrightarrow> \<not> isl r \<Longrightarrow>
     sum_list (map (label_weight ok_events) ls) = length (written ls)
     \<and> sum_list (map (label_weight failures) ls) = 0"
proof (induction ls)
  case (Cons l ls)
  have "label_weight ok_events l = length (written_events l) \<and> label_weight failures l = 0"
  proof (cases l)
    case (Write i took es r)
    with Cons.prems have "\<not> isl r" by auto
    with Write show ?thesis by (cases r) auto
  qed auto
  moreover have "\<forall>i took es r. Write i took es r \<in> set ls \<longrightarrow> \<not> isl r" using Cons.prems by auto
  ultimately show ?case using Cons.IH by (simp add: written_def)
qed (simp add: written_def)

lemma stopped_settled: "\<forall>p\<in>set (bp_processors s). p = Stopped \<Longrightarrow> settled s"
  by (fastforce simp: settled_def)

lemma ok_metrics:
  assumes "system_run R X (processor_start s config) ls t" and "settled t"
    and "\<forall>i took es r. Write i took es r \<in> set ls \<longrightarrow> \<not> isl r"
  shows "total_events_processed (bp_metrics t) = word_of_nat (length (written ls))
    \<and> processing_errors (bp_metrics t) = 0"
  using count_events.settled_tally[OF assms(1) _ assms(2)]
    count_failures.settled_tally[OF assms(1) _ assms(2)] ok_weights[OF assms(3)]
  by (simp add: metrics_default_def)

context reliable_store
begin

lemma reliable_flush:
  assumes "store_wf X contents s" and "\<forall>e\<in>set es. encodable X (es_serializer s) e"
    and "\<forall>e\<in>set es. event_view X contents s (generate_event_key X e) = None"
    and "flush_append R X config took s es = (r, s')"
  shows "\<not> isl r"
  using reliable_append_events[OF assms(1-3)] reliable_append_optimized[OF assms(1-3), of took] assms(4)
  by (auto simp: flush_append_def split: if_splits)

text \<open>No write of a run fails, if the events sent can be encoded and have keys of their own.\<close>

lemma reliable_run:
  "system_run R X s0 ls t \<Longrightarrow> s0 = processor_start s config \<Longrightarrow> store_wf X contents s \<Longrightarrow>
   \<forall>e\<in>set (sent ls). encodable X (es_serializer s) e \<Longrightarrow>
   distinct (map (generate_event_key X) (event_log X contents s @ sent ls)) \<Longrightarrow>
     \<forall>i took es r. Write i took es r \<in> set ls \<longrightarrow> \<not> isl r"
proof (induction rule: system_run.induct)
  case (run_step s0 ls t l u)
  note run = run_step.hyps(1)[unfolded run_step.prems(1)] and wf = run_step.prems(2)
  have enc: "\<forall>e\<in>set (sent ls). encodable X (es_serializer s) e"
    and dist: "distinct (map (generate_event_key X) (event_log X contents s @ sent ls))"
    using run_step.prems(3,4) by auto
  have IH: "Write i took es r \<in> set ls \<Longrightarrow> \<not> isl r" for i took es r
    using run_step.IH[OF run_step.prems(1,2) enc dist] by blast
  have "\<not> isl r" if l: "l = Write i took es r" for i took es r
  proof -
    from write_stepD[OF run_step.hyps(2)[unfolded l]] obtain b leave where
      i: "i < length (bp_processors t)" "bp_processors t ! i = Appending b leave" "es = batch_events b"
      and f: "flush_append R X (bp_config t) took (bp_store t) es = (r, bp_store u)" by blast
    have flight: "in_flight t + mset (written ls) = mset (sent ls)" using run_conserves[OF run] by simp
    have es: "e \<in># in_flight t" "e \<in> set (sent ls)" if "e \<in> set es" for e
    proof -
      show "e \<in># in_flight t" using held_in_flight[OF i(1)] i that by simp
      with flight show "e \<in> set (sent ls)" by (metis set_mset_mset set_mset_union UnCI)
    qed
    have store: "store_wf X contents (bp_store t)"
      "ran (event_view X contents (bp_store t)) \<subseteq> set (event_log X contents s) \<union> set (written ls)"
      using system_run_store[OF run] wf by (simp_all add: processor_start_def set_event_log)
    have "event_view X contents (bp_store t) (generate_event_key X e) = None" if "e \<in> set es" for e
    proof (rule ccontr)
      assume "event_view X contents (bp_store t) (generate_event_key X e) \<noteq> None"
      then obtain d where d: "event_view X contents (bp_store t) (generate_event_key X e) = Some d" by blast
      then have "generate_event_key X d = generate_event_key X e" by (rule view_key[OF store(1)])
      moreover have "d \<notin> set (written ls)"
        using distinct_parts[OF flight _ es(1)[OF that]] dist calculation by auto
      with d store(2) have "d \<in> set (event_log X contents s)" by (auto simp: ran_def)
      ultimately show False using dist es(2)[OF that] by (auto simp: image_def)
    qed
    moreover have "\<forall>e\<in>set es. encodable X (es_serializer (bp_store t)) e"
      using run_serializer[OF run] enc es(2) by (simp add: processor_start_def)
    ultimately show ?thesis using reliable_flush[OF store(1)] f by blast
  qed
  with IH show ?case by auto
qed simp

text \<open>No write of any continuation fails once the sender is dropped.\<close>

lemma reliable_continuation:
  assumes "system_run R X (processor_start s config) ls t" and "store_wf X contents s"
    and "\<not> bp_sender_open t" and "\<forall>e\<in>set (sent ls). encodable X (es_serializer s) e"
    and "distinct (map (generate_event_key X) (event_log X contents s @ sent ls))"
    and "system_run R X t ks u"
  shows "\<forall>i took es r. Write i took es r \<in> set (ls @ ks) \<longrightarrow> \<not> isl r"
proof -
  have "sent (ls @ ks) = sent ls" using closed_run[OF assms(6,3)] by simp
  then show ?thesis
    using reliable_run[OF system_run_trans[OF assms(6,1)] refl assms(2)] assms(4,5) by metis
qed

text \<open>What the store and the metrics hold when every processor has left, whatever the schedule was.\<close>

lemma reliable_drained:
  assumes run: "system_run R X (processor_start s config) ls t" and wf: "store_wf X contents s"
    and shut: "Shutdown \<notin> set ls" and closed: "\<not> bp_sender_open t" and some: "1 \<le> num_processors config"
    and delay: "max_batch_delay config \<noteq> 0" and enc: "\<forall>e\<in>set (sent ls). encodable X (es_serializer s) e"
    and dist: "distinct (map (generate_event_key X) (event_log X contents s @ sent ls))"
    and ks: "system_run R X t ks u" and noshut: "Shutdown \<notin> set ks"
    and stopped: "\<forall>p\<in>set (bp_processors u). p = Stopped"
  shows "store_wf X contents (bp_store u)
    \<and> event_log X contents (bp_store u) = sort_key (generate_event_key X) (event_log X contents s @ sent ls)
    \<and> total_events_processed (bp_metrics u) = word_of_nat (length (sent ls))
    \<and> processing_errors (bp_metrics u) = 0"
proof -
  have all: "system_run R X (processor_start s config) (ls @ ks) u"
    by (rule system_run_trans[OF ks run])
  have sent: "sent (ls @ ks) = sent ls" using closed_run[OF ks closed] by simp
  note writes = reliable_continuation[OF run wf closed enc dist ks]
  have "Shutdown \<notin> set (ls @ ks)" using shut noshut by simp
  note out = stopped_drained[OF all this some delay stopped, unfolded sent]
  then have "in_flight u = {#}" using in_flight_stopped[OF stopped] by simp
  note log = log_after_run[OF all wf this writes, unfolded sent, OF dist]
  have "length (written (ls @ ks)) = length (sent ls)" using out mset_eq_length by blast
  with ok_metrics[OF all stopped_settled[OF stopped] writes] log show ?thesis by metis
qed

end

end
