(* ===== verification/StoreTests.thy ===== *)
theory StoreTests
  imports StoreLog PathResolver "HOL-Library.Multiset"
begin

text \<open>
  The unit tests of \<^verbatim>\<open>store.rs\<close>. A test is a run that returns when its assertions hold and panics
  when one fails or when it unwraps an error. The random identifiers are drawn from \<open>v4\<close>, the
  readings of the clock from \<open>clock\<close>; the temporary directory and RocksDB's \<^verbatim>\<open>open\<close> are arguments.
\<close>

section \<open>Set-up\<close>

definition create_test_store ::
  "string + string \<Rightarrow> (Options \<Rightarrow> string \<Rightarrow> string + 'db) \<Rightarrow> 'db EventStore run" where
  "create_test_store temp_dir db_open =
     run_bind (unwrap temp_dir) (\<lambda>path. unwrap (event_store_new db_open path config_default))"

definition test_account_created :: "AccountId \<Rightarrow> Amount \<Rightarrow> DateTime \<Rightarrow> AccountCreatedEvent" where
  "test_account_created a balance now =
     \<lparr>ac_account_id = a, ac_account_type = Customer, ac_currency = currency_usd,
      ac_initial_balance = balance,
      ac_metadata = \<lparr>am_account_type = Customer, am_currency = currency_usd, am_tags = fmempty,
        am_regulatory_flags = []\<rparr>,
      ac_created_at = now\<rparr>"

text \<open>The event is made first, its envelope after it.\<close>

definition test_envelope ::
  "UuidText \<Rightarrow> AccountId \<Rightarrow> Amount \<Rightarrow> DateTime \<Rightarrow> uuid \<Rightarrow> DateTime \<Rightarrow> EventEnvelope" where
  "test_envelope U a balance now0 v4 now1 =
     event_envelope_new v4 now1 (uuid_to_string U (account_uuid a)) 1
       (AccountCreated (test_account_created a balance now0)) event_metadata_default"

section \<open>The tests\<close>

definition retrieve_envelope :: "UuidText \<Rightarrow> (nat \<Rightarrow> uuid) \<Rightarrow> (nat \<Rightarrow> DateTime) \<Rightarrow> EventEnvelope" where
  "retrieve_envelope U v4 clock =
     test_envelope U (account_id_new (v4 0)) (amount_new 1000) (clock 0) (v4 1) (clock 1)"

definition test_append_and_retrieve_event ::
  "UuidText \<Rightarrow> 'db RocksDB \<Rightarrow> Libs \<Rightarrow> string + string \<Rightarrow> (Options \<Rightarrow> string \<Rightarrow> string + 'db)
     \<Rightarrow> (nat \<Rightarrow> uuid) \<Rightarrow> (nat \<Rightarrow> DateTime) \<Rightarrow> unit run"
where
  "test_append_and_retrieve_event U R X temp_dir db_open v4 clock =
     run_bind (create_test_store temp_dir db_open) (\<lambda>store.
       let envelope = retrieve_envelope U v4 clock in
       run_bind (unwrap_state (append_event R X store envelope)) (\<lambda>store.
       run_bind (unwrap (get_account_events R X store (account_id_new (v4 0)))) (\<lambda>account_events.
       run_bind (asserting (length account_events = 1)) (\<lambda>_.
       asserting (event_id (account_events ! 0) = event_id envelope)))))"

definition batch_envelopes :: "UuidText \<Rightarrow> (nat \<Rightarrow> uuid) \<Rightarrow> (nat \<Rightarrow> DateTime) \<Rightarrow> EventEnvelope list" where
  "batch_envelopes U v4 clock =
     map (\<lambda>i. test_envelope U (account_id_new (v4 (2 * i))) (amount_new (1000 + word_of_nat i))
       (clock (2 * i)) (v4 (2 * i + 1)) (clock (2 * i + 1))) [0..<10]"

definition test_batch_append ::
  "UuidText \<Rightarrow> 'db RocksDB \<Rightarrow> Libs \<Rightarrow> string + string \<Rightarrow> (Options \<Rightarrow> string \<Rightarrow> string + 'db)
     \<Rightarrow> (nat \<Rightarrow> uuid) \<Rightarrow> (nat \<Rightarrow> DateTime) \<Rightarrow> unit run"
where
  "test_batch_append U R X temp_dir db_open v4 clock =
     run_bind (create_test_store temp_dir db_open) (\<lambda>store.
       run_bind (unwrap_state (append_events R X store (batch_envelopes U v4 clock))) (\<lambda>store.
       run_bind (unwrap (get_latest_events R X store 20)) (\<lambda>latest_events.
       asserting (length latest_events = 10))))"

text \<open>A loop that appends one event after the other, unwrapping every result.\<close>

fun append_each ::
  "'db RocksDB \<Rightarrow> Libs \<Rightarrow> EventEnvelope list \<Rightarrow> 'db EventStore \<Rightarrow> 'db EventStore run" where
  "append_each R X [] store = Return store"
| "append_each R X (envelope # envelopes) store =
     run_bind (unwrap_state (append_event R X store envelope)) (append_each R X envelopes)"

definition query_envelopes :: "UuidText \<Rightarrow> (nat \<Rightarrow> uuid) \<Rightarrow> (nat \<Rightarrow> DateTime) \<Rightarrow> EventEnvelope list" where
  "query_envelopes U v4 clock =
     map (\<lambda>i. test_envelope U (account_id_new (v4 0)) (amount_new (1000 + word_of_nat i))
       (clock (2 * i)) (v4 (i + 1)) (clock (2 * i + 1))) [0..<5]"

definition test_query_events ::
  "UuidText \<Rightarrow> 'db RocksDB \<Rightarrow> Libs \<Rightarrow> string + string \<Rightarrow> (Options \<Rightarrow> string \<Rightarrow> string + 'db)
     \<Rightarrow> (nat \<Rightarrow> uuid) \<Rightarrow> (nat \<Rightarrow> DateTime) \<Rightarrow> unit run"
where
  "test_query_events U R X temp_dir db_open v4 clock =
     run_bind (create_test_store temp_dir db_open) (\<lambda>store.
       run_bind (append_each R X (query_envelopes U v4 clock) store) (\<lambda>store.
       let query = \<lparr>q_account_id = Some (account_id_new (v4 0)), q_start_time = None, q_end_time = None,
             q_limit = Some 3, q_offset = None, q_event_types = None\<rparr> in
       run_bind (unwrap (query_events R X store query)) (\<lambda>result.
       run_bind (asserting (length (events result) = 3)) (\<lambda>_.
       asserting (has_more result)))))"

section \<open>Lemmas\<close>

text \<open>The store a test starts with.\<close>

definition fresh_store :: "'db \<Rightarrow> 'db EventStore" where
  "fresh_store d = \<lparr>es_db = d, es_serializer = serializer_new True, es_config = config_default\<rparr>"

lemma fresh_store_simps [simp]: "es_db (fresh_store d) = d" "es_serializer (fresh_store d) = serializer_new True"
  by (simp_all add: fresh_store_def)

lemma create_test_store_fresh:
  "db_open (store_options config_default) path = Inr d \<Longrightarrow>
     create_test_store (Inr path) db_open = Return (fresh_store d)"
  by (simp add: create_test_store_def event_store_new_def fresh_store_def config_default_def)

lemma fresh_store_wf: "contents d = [] \<Longrightarrow> store_wf X contents (fresh_store d)"
  by (simp add: store_wf_def)

lemma fresh_store_log: "contents d = [] \<Longrightarrow> event_log X contents (fresh_store d) = []"
  by (simp add: event_log_def map_filter_simps)

lemma test_envelope_simps [simp]:
  "event_id (test_envelope U a m t0 v t1) = EventId v"
  "timestamp (test_envelope U a m t0 v t1) = t1"
  "event_matches_account (test_envelope U a m t0 v t1) b \<longleftrightarrow> a = b"
  by (simp_all add: test_envelope_def event_matches_account.simps test_account_created_def)

lemma test_event_ids:
  "map event_id [retrieve_envelope U v4 clock] = [EventId (v4 1)]"
  "map event_id (batch_envelopes U v4 clock) = map (\<lambda>i. EventId (v4 (2 * i + 1))) [0..<10]"
  "map event_id (query_envelopes U v4 clock) = map (\<lambda>i. EventId (v4 (i + 1))) [0..<5]"
  by (simp_all add: retrieve_envelope_def batch_envelopes_def query_envelopes_def comp_def)

lemma distinct_ids_keys:
  "distinct (map event_id es) \<Longrightarrow> distinct (map (generate_event_key X) es)"
  by (auto simp: distinct_map inj_on_def event_key_eq_iff)

context reliable_store
begin

lemma fresh_view:
  assumes "store_wf X contents s" and "generate_event_key X e \<notin> generate_event_key X ` set (event_log X contents s)"
  shows "event_view X contents s (generate_event_key X e) = None"
proof (rule ccontr)
  assume "event_view X contents s (generate_event_key X e) \<noteq> None"
  then obtain d where d: "event_view X contents s (generate_event_key X e) = Some d" by blast
  from view_log[OF d] view_key[OF assms(1) d] assms(2) show False by (metis imageI)
qed

lemma append_each_set:
  "store_wf X contents s \<Longrightarrow> \<forall>e\<in>set es. encodable X (es_serializer s) e \<Longrightarrow>
   distinct (map (generate_event_key X) (event_log X contents s @ es)) \<Longrightarrow>
     \<exists>s'. append_each R X es s = Return s' \<and> store_wf X contents s'
       \<and> set (event_log X contents s') = set (event_log X contents s) \<union> set es"
proof (induction es arbitrary: s)
  case (Cons e es)
  have "event_view X contents s (generate_event_key X e) = None"
    by (rule fresh_view[OF Cons.prems(1)]) (use Cons.prems(3) in auto)
  with reliable_append_event[OF Cons.prems(1), of e] Cons.prems(2) obtain t where
    t: "append_event R X s e = (Inr (), t)" "es_serializer t = es_serializer s" by auto
  note log = log_after_event[OF Cons.prems(1) t(1)]
  have "mset (map (generate_event_key X) (event_log X contents t @ es)) =
      mset (map (generate_event_key X) (event_log X contents s @ e # es))"
    unfolding mset_map using log by simp
  from mset_eq_imp_distinct_iff[OF this] Cons.prems(3)
  have "distinct (map (generate_event_key X) (event_log X contents t @ es))" by blast
  from Cons.IH[OF conjunct1[OF log] _ this] Cons.prems(2) t log show ?case by auto
qed simp

lemma append_each_log:
  assumes "store_wf X contents s" and "\<forall>e\<in>set es. encodable X (es_serializer s) e"
    and "distinct (map (generate_event_key X) (event_log X contents s @ es))"
  shows "\<exists>s'. append_each R X es s = Return s' \<and> store_wf X contents s'
    \<and> event_log X contents s' = sort_key (generate_event_key X) (event_log X contents s @ es)"
  using append_each_set[OF assms] log_determined[OF _ _ assms(3)] by fastforce

lemma append_events_fresh:
  assumes "store_wf X contents s" and "\<forall>e\<in>set es. encodable X (es_serializer s) e"
    and "distinct (map (generate_event_key X) (event_log X contents s @ es))"
  shows "\<exists>s'. append_events R X s es = (Inr (), s') \<and> store_wf X contents s'
    \<and> event_log X contents s' = sort_key (generate_event_key X) (event_log X contents s @ es)"
proof -
  have "\<forall>e\<in>set es. event_view X contents s (generate_event_key X e) = None"
    using fresh_view[OF assms(1)] assms(3) by auto
  from reliable_append_events[OF assms(1,2) this] obtain s' where "append_events R X s es = (Inr (), s')" ..
  with log_after_append[OF assms(1) this] assms(3) show ?thesis by auto
qed

lemma query_account:
  assumes "store_wf X contents s" and "q_account_id q = Some a" and "q_start_time q = None"
    and "q_end_time q = None" and "q_offset q = None" and "q_event_types q = None"
  shows "\<exists>r. query_events R X s q = Inr r
    \<and> events r = take (query_limit q) (filter (\<lambda>e. event_matches_account e a) (event_log X contents s))
    \<and> (has_more r \<longleftrightarrow> query_limit q \<le> length (filter (\<lambda>e. event_matches_account e a) (event_log X contents s)))"
proof -
  have all: "filter (type_ok q) es = es" "takeWhile (end_ok q) es = es" "from_start X q es = es"
    "filter (account_ok q) es = filter (\<lambda>e. event_matches_account e a) es"
    "page q es = take (query_limit q) es" for es
    using assms by (simp_all add: takeWhile_eq_all_conv end_ok_def type_ok_def account_ok_def[abs_def]
        from_start_def page_def query_offset_def)
  from query_events_eq[OF assms(1) iterates_total, of q] show ?thesis
    by (simp only: all Let_def) (auto simp: min_def)
qed

end

section \<open>Properties\<close>

text \<open>The unit tests of the store pass: over a database that never fails and that is opened
  empty, with random identifiers that do not repeat and a codec that encodes the test events,
  none of the three tests panics, whatever the clock says.\<close>

theorem store_unit_tests_pass:
  assumes "reliable_store R contents X" and "inj_on v4 {..<20}"
    and "db_open (store_options config_default) path = Ok d" and "contents d = []"
    and "\<forall>e\<in>set (retrieve_envelope U v4 clock # batch_envelopes U v4 clock @ query_envelopes U v4 clock).
      encodable X (serializer_new True) e"
  shows "test_append_and_retrieve_event U R X (Ok path) db_open v4 clock = Return ()
    \<and> test_batch_append U R X (Ok path) db_open v4 clock = Return ()
    \<and> test_query_events U R X (Ok path) db_open v4 clock = Return ()"
proof (intro conjI)
  note start = create_test_store_fresh[of db_open path d, OF assms(3)]
  note env = reliable_store.axioms(1)[OF assms(1)]
  note wf = fresh_store_wf[of contents d X, OF assms(4)] and log = fresh_store_log[of contents d X, OF assms(4)]
  have enc: "\<forall>e\<in>set es. encodable X (es_serializer (fresh_store d)) e"
    if "es \<in> {[retrieve_envelope U v4 clock], batch_envelopes U v4 clock, query_envelopes U v4 clock}" for es
    using that assms(5) by auto
  have dist: "distinct (map (generate_event_key X) (event_log X contents (fresh_store d) @ es))"
    if "es \<in> {[retrieve_envelope U v4 clock], batch_envelopes U v4 clock, query_envelopes U v4 clock}" for es
  proof -
    have "distinct (map event_id es)"
      using that by (elim insertE emptyE)
        (auto simp only: test_event_ids, auto simp: distinct_map inj_on_def dest!: inj_onD[OF assms(2)])
    then show ?thesis using distinct_ids_keys by (simp add: log)
  qed
  show "test_append_and_retrieve_event U R X (Inr path) db_open v4 clock = Return ()"
  proof -
    from reliable_store.append_each_log[OF assms(1) wf enc dist, of "[retrieve_envelope U v4 clock]"]
    obtain s where s: "append_each R X [retrieve_envelope U v4 clock] (fresh_store d) = Return s"
      "store_wf X contents s" "event_log X contents s = [retrieve_envelope U v4 clock]" by (auto simp: log)
    from reliable_store.query_account[OF assms(1) s(2), of "query_all\<lparr>q_account_id := Some (AccountId (v4 0))\<rparr>"]
    obtain r where "query_events R X s (query_all\<lparr>q_account_id := Some (AccountId (v4 0))\<rparr>) = Inr r"
      "events r = [retrieve_envelope U v4 clock]"
      by (auto simp: query_all_def query_limit_def s(3) retrieve_envelope_def account_id_new_def)
    with s(1) start show ?thesis
      by (simp add: test_append_and_retrieve_event_def get_account_events_def account_id_new_def
          run_bind_Return_iff Let_def) 
  qed
  show "test_batch_append U R X (Inr path) db_open v4 clock = Return ()"
  proof -
    from reliable_store.append_events_fresh[OF assms(1) wf enc dist, of "batch_envelopes U v4 clock"]
    obtain s where s: "append_events R X (fresh_store d) (batch_envelopes U v4 clock) = (Inr (), s)"
      "store_wf X contents s" "length (event_log X contents s) = 10" by (auto simp: log batch_envelopes_def)
    from event_store_env.get_latest_eq[OF env s(2) reliable_store.iterates_total[OF assms(1)]] s(3)
    obtain es where "get_latest_events R X s 20 = Inr es" "length es = 10" by simp
    with s(1) start show ?thesis by (simp add: test_batch_append_def)
  qed
  show "test_query_events U R X (Inr path) db_open v4 clock = Return ()"
  proof -
    let ?q = "\<lparr>q_account_id = Some (account_id_new (v4 0)), q_start_time = None, q_end_time = None,
      q_limit = Some 3, q_offset = None, q_event_types = None\<rparr>"
    from reliable_store.append_each_log[OF assms(1) wf enc dist, of "query_envelopes U v4 clock"]
    obtain s where s: "append_each R X (query_envelopes U v4 clock) (fresh_store d) = Return s"
      "store_wf X contents s"
      "event_log X contents s = sort_key (generate_event_key X) (query_envelopes U v4 clock)" by (auto simp: log)
    have "filter (\<lambda>e. event_matches_account e (account_id_new (v4 0))) (event_log X contents s) =
        event_log X contents s"
      by (rule filter_True) (auto simp: s(3) query_envelopes_def)
    moreover have "length (event_log X contents s) = 5" by (simp add: s(3) query_envelopes_def)
    ultimately obtain r where "query_events R X s ?q = Inr r" "length (events r) = 3" "has_more r"
      using reliable_store.query_account[OF assms(1) s(2), of ?q "account_id_new (v4 0)"]
      by (auto simp: query_limit_def)
    with s(1) start show ?thesis by (simp add: test_query_events_def)
  qed
qed

lemma uuid_draws: "inj_on (word_of_nat :: nat \<Rightarrow> uuid) {..<20}"
  by (rule inj_on_inverseI[of _ unat]) (simp add: unat_of_nat take_bit_nat_eq_self)

theorem store_unit_tests_pass_witness:
  "\<exists>X. test_query_events binary_uuid ram_db X (Ok ''/tmp/x'') (\<lambda>_ _. Ok []) word_of_nat int = Return ()
     \<and> test_batch_append binary_uuid ram_db X (Ok ''/tmp/x'') (\<lambda>_ _. Ok []) word_of_nat int = Return ()"
proof -
  let ?t = "retrieve_envelope binary_uuid word_of_nat int # batch_envelopes binary_uuid word_of_nat int
    @ query_envelopes binary_uuid word_of_nat int"
  have "length ?t \<le> 256" by (simp add: batch_envelopes_def query_envelopes_def)
  then have "\<forall>e\<in>set ?t. encodable (table_libs ?t) (serializer_new True) e"
    using table_encodable[of _ ?t] by blast
  from store_unit_tests_pass[OF ram_reliable uuid_draws _ _ this, of "\<lambda>_ _. Ok []" "''/tmp/x''" "[]"]
  show ?thesis by auto
qed

end
