(* ===== verification/BatchTests.thy ===== *)
theory BatchTests
  imports BatchStore StoreTests
begin

text \<open>
  The unit tests of \<^verbatim>\<open>batch.rs\<close>, as runs that return or panic. The test of the processor waits for
  200 milliseconds; its assertions are a function of the state when the metrics are read and of the
  state when the store is read, in any run of the processors.
\<close>

section \<open>The tests\<close>

definition create_test_event ::
  "UuidText \<Rightarrow> AccountId \<Rightarrow> DateTime \<Rightarrow> uuid \<Rightarrow> DateTime \<Rightarrow> EventEnvelope" where
  "create_test_event U a now0 v4 now1 =
     event_envelope_new v4 now1 (uuid_to_string U (account_uuid a)) 1
       (AccountCreated
          \<lparr>ac_account_id = a, ac_account_type = Customer, ac_currency = currency_usd,
           ac_initial_balance = amount_new 1000,
           ac_metadata = \<lparr>am_account_type = Customer, am_currency = currency_usd, am_tags = fmempty,
             am_regulatory_flags = []\<rparr>,
           ac_created_at = now0\<rparr>)
       event_metadata_default"

definition test_batch_creation ::
  "UuidText \<Rightarrow> nat \<Rightarrow> (nat \<Rightarrow> uuid) \<Rightarrow> (nat \<Rightarrow> DateTime) \<Rightarrow> unit run" where
  "test_batch_creation U now v4 clock =
     (let batch = event_batch_new now in
      run_bind (asserting (batch_is_empty batch)) (\<lambda>_.
      let account_id = account_id_new (v4 0);
          event = create_test_event U account_id (clock 0) (v4 1) (clock 1);
          batch = batch_add_event batch event in
      run_bind (asserting (batch_len batch = 1)) (\<lambda>_.
      run_bind (asserting (\<not> batch_is_empty batch)) (\<lambda>_.
      asserting (\<not> batch_is_full batch 10)))))"

text \<open>The event of round \<open>i\<close> of a loop that makes an account and its event.\<close>

definition loop_event :: "UuidText \<Rightarrow> (nat \<Rightarrow> uuid) \<Rightarrow> (nat \<Rightarrow> DateTime) \<Rightarrow> nat \<Rightarrow> EventEnvelope" where
  "loop_event U v4 clock i =
     create_test_event U (account_id_new (v4 (2 * i))) (clock (2 * i)) (v4 (2 * i + 1)) (clock (2 * i + 1))"

definition sync_round ::
  "UuidText \<Rightarrow> 'db RocksDB \<Rightarrow> Libs \<Rightarrow> (nat \<Rightarrow> uuid) \<Rightarrow> (nat \<Rightarrow> DateTime) \<Rightarrow> nat
     \<Rightarrow> 'db SyncBatchWriter \<Rightarrow> 'db SyncBatchWriter run"
where
  "sync_round U R X v4 clock i writer =
     (let writer = writer_add_event writer (loop_event U v4 clock i) in
      if i = 2
      then case writer_flush_if_full R X writer of
             (Inl _, writer) \<Rightarrow> Panic
           | (Inr flushed, writer) \<Rightarrow>
               run_bind (asserting flushed) (\<lambda>_.
               run_bind (asserting (pending_count writer = 0)) (\<lambda>_. Return writer))
      else Return writer)"

fun sync_rounds ::
  "UuidText \<Rightarrow> 'db RocksDB \<Rightarrow> Libs \<Rightarrow> (nat \<Rightarrow> uuid) \<Rightarrow> (nat \<Rightarrow> DateTime) \<Rightarrow> nat list
     \<Rightarrow> 'db SyncBatchWriter \<Rightarrow> 'db SyncBatchWriter run"
where
  "sync_rounds U R X v4 clock [] writer = Return writer"
| "sync_rounds U R X v4 clock (i # is) writer =
     run_bind (sync_round U R X v4 clock i writer) (sync_rounds U R X v4 clock is)"

definition test_sync_batch_writer ::
  "UuidText \<Rightarrow> 'db RocksDB \<Rightarrow> Libs \<Rightarrow> string + string \<Rightarrow> (Options \<Rightarrow> string \<Rightarrow> string + 'db)
     \<Rightarrow> (nat \<Rightarrow> uuid) \<Rightarrow> (nat \<Rightarrow> DateTime) \<Rightarrow> unit run"
where
  "test_sync_batch_writer U R X temp_dir db_open v4 clock =
     run_bind (create_test_store temp_dir db_open) (\<lambda>store.
     run_bind (sync_rounds U R X v4 clock [0..<5] (writer_new store 3)) (\<lambda>writer.
     run_bind (asserting (pending_count writer = 2)) (\<lambda>_.
     run_bind (unwrap_state (writer_flush R X writer)) (\<lambda>writer.
     run_bind (asserting (pending_count writer = 0)) (\<lambda>_.
     run_bind (unwrap (get_latest_events R X (w_event_store writer) 10)) (\<lambda>latest_events.
     asserting (length latest_events = 5)))))))"

definition test_processor_config :: BatchConfig where
  "test_processor_config =
     \<lparr>max_batch_size = 3, max_batch_delay = from_millis 100, buffer_size = 100, num_processors = 1,
      use_optimized_append = True, target_throughput = 1000, enforce_append_only = True\<rparr>"

text \<open>\<open>s\<close> is the state when the metrics are read, \<open>t\<close> the one when the store is read, after the
  shutdown.\<close>

definition test_batch_processor_basic ::
  "'db RocksDB \<Rightarrow> Libs \<Rightarrow> 'db BatchProcessor \<Rightarrow> 'db BatchProcessor \<Rightarrow> unit run" where
  "test_batch_processor_basic R X s t =
     run_bind (asserting (total_events_processed (get_metrics s) \<ge> 5)) (\<lambda>_.
     run_bind (unwrap (get_latest_events R X (bp_store t) 10)) (\<lambda>latest_events.
     asserting (length latest_events = 5)))"

section \<open>Lemmas\<close>

lemma loop_event_id [simp]: "event_id (loop_event U v4 clock i) = EventId (v4 (2 * i + 1))"
  by (simp add: loop_event_def create_test_event_def)

lemma loop_events_distinct:
  assumes "inj_on v4 {..<20}" and "n \<le> 10"
  shows "distinct (map (generate_event_key X) (map (loop_event U v4 clock) [0..<n]))"
  by (rule distinct_ids_keys)
    (use assms(2) in \<open>auto simp: distinct_map inj_on_def comp_def dest!: inj_onD[OF assms(1)]
      arg_cong[where f = event_id]\<close>)

text \<open>The channel takes what is sent while it has room and a processor is there.\<close>

lemma send_all:
  "bp_sender_open s \<Longrightarrow> length (bp_queue s) + length es \<le> buffer_size (bp_config s) \<Longrightarrow>
   \<exists>p\<in>set (bp_processors s). p \<noteq> Stopped \<Longrightarrow>
     system_run R X s (map Send es) (s\<lparr>bp_queue := bp_queue s @ es\<rparr>)"
proof (induction es arbitrary: s)
  case Nil
  then show ?case by (simp add: run_refl)
next
  case (Cons e es)
  have "system_step R X s (Send e) (s\<lparr>bp_queue := bp_queue s @ [e]\<rparr>)"
    by (rule step_send) (use Cons.prems in auto)
  moreover have "system_run R X (s\<lparr>bp_queue := bp_queue s @ [e]\<rparr>) (map Send es)
      (s\<lparr>bp_queue := (bp_queue s @ [e]) @ es\<rparr>)"
    using Cons.IH[of "s\<lparr>bp_queue := bp_queue s @ [e]\<rparr>"] Cons.prems by simp
  ultimately show ?case by (simp add: system_run_Cons)
qed

lemma sent_sends [simp]: "sent (map Send es) = es"
  by (induction es) (auto simp: sent_def)

lemma sends_come_to_rest:
  assumes "length es \<le> buffer_size config" and "1 \<le> num_processors config" and "max_batch_delay config \<noteq> 0"
  shows "\<exists>ls u. system_run R X (processor_start s config) ls u \<and> sent ls = es \<and> in_flight u = {#} \<and> settled u"
proof -
  let ?s = "processor_start s config"
  have "system_run R X ?s (map Send es) (?s\<lparr>bp_queue := es\<rparr>)"
    using send_all[of ?s es R X] assms by (simp add: processor_start_def)
  from run_step[OF this step_close]
  have r: "system_run R X ?s (map Send es @ [CloseSender]) (?s\<lparr>bp_queue := es, bp_sender_open := False\<rparr>)"
    by simp
  from drain_complete[OF r _ _ assms(2,3)] obtain ks u where
    u: "system_run R X (?s\<lparr>bp_queue := es, bp_sender_open := False\<rparr>) ks u" "\<forall>l\<in>set ks. quiet l"
      "\<forall>p\<in>set (bp_processors u). p = Stopped" "bp_queue u = []" by auto
  from system_run_trans[OF u(1) r] quiet_sends_nothing[OF u(2)] in_flight_stopped[OF u(3)] u(4)
    stopped_settled[OF u(3)]
  show ?thesis by (intro exI[of _ "(map Send es @ [CloseSender]) @ ks"] exI[of _ u]) simp
qed

lemma run_at_rest:
  assumes "system_run R X (processor_start s config) ls t" and "in_flight t = {#}"
    and "system_run R X t ks u" and "sent ks = []"
  shows "in_flight u = {#} \<and> written ks = []"
  using run_conserves[OF assms(3)] assms(2,4) by simp

context reliable_store
begin

lemma flush_fresh:
  assumes "store_wf X contents (w_event_store w)"
    and "\<forall>e\<in>set (pending_events w). encodable X (es_serializer (w_event_store w)) e"
    and "distinct (map (generate_event_key X) (event_log X contents (w_event_store w) @ pending_events w))"
  shows "\<exists>s'. writer_flush R X w = (Inr (), w\<lparr>pending_events := [], w_event_store := s'\<rparr>)
    \<and> store_wf X contents s' \<and> es_serializer s' = es_serializer (w_event_store w)
    \<and> event_log X contents s' =
        sort_key (generate_event_key X) (event_log X contents (w_event_store w) @ pending_events w)"
proof (cases "pending_events w = []")
  case True
  have "sorted (map (generate_event_key X) (event_log X contents (w_event_store w)))"
    using log_key_sorted[OF assms(1)] by (simp add: strict_sorted_iff)
  then show ?thesis using True assms(1)
    by (intro exI[of _ "w_event_store w"]) (simp add: writer_flush_def sorted_sort_id sort_key_id_if_sorted)
next
  case False
  from append_events_fresh[OF assms] obtain s' where
    s': "append_events R X (w_event_store w) (pending_events w) = (Inr (), s')" "store_wf X contents s'"
      "event_log X contents s' =
        sort_key (generate_event_key X) (event_log X contents (w_event_store w) @ pending_events w)" by blast
  then show ?thesis using False append_keeps_serializer(2)[OF s'(1)]
    by (intro exI[of _ s']) (simp add: writer_flush_def)
qed

lemma sync_rounds_run:
  assumes "contents d = []" and "inj_on v4 {..<20}"
    and "\<forall>i<5. encodable X (serializer_new True) (loop_event U v4 clock i)"
  shows "\<exists>s. sync_rounds U R X v4 clock [0..<5] (writer_new (fresh_store d) 3) =
      Return \<lparr>w_event_store = s, pending_events = map (loop_event U v4 clock) [3, 4], w_max_batch_size = 3\<rparr>
    \<and> store_wf X contents s \<and> es_serializer s = serializer_new True
    \<and> event_log X contents s = sort_key (generate_event_key X) (map (loop_event U v4 clock) [0, 1, 2])"
proof -
  let ?e = "loop_event U v4 clock"
  let ?w = "\<lparr>w_event_store = fresh_store d, pending_events = map ?e [0, 1, 2], w_max_batch_size = 3\<rparr>"
  note wf = fresh_store_wf[of contents d X, OF assms(1)] and log = fresh_store_log[of contents d X, OF assms(1)]
  have "[0..<3] = [0, 1, 2::nat]" by (simp add: upt_rec)
  with loop_events_distinct[OF assms(2), of 3 X U clock]
  have dist: "distinct (map (generate_event_key X) (event_log X contents (fresh_store d) @ map ?e [0, 1, 2]))"
    by (simp add: log)
  obtain s where f: "writer_flush R X ?w = (Inr (), ?w\<lparr>pending_events := [], w_event_store := s\<rparr>)"
    "store_wf X contents s" "es_serializer s = serializer_new True"
    "event_log X contents s = sort_key (generate_event_key X) (map ?e [0, 1, 2])"
    using flush_fresh[of ?w] wf dist assms(3) by (auto simp: log)
  have "writer_flush_if_full R X ?w = (Inr True, ?w\<lparr>pending_events := [], w_event_store := s\<rparr>)"
    using f(1) by (simp add: writer_flush_if_full_def)
  moreover have "[0..<5] = [0, 1, 2, 3, 4::nat]" by (simp add: upt_rec)
  ultimately have "sync_rounds U R X v4 clock [0..<5] (writer_new (fresh_store d) 3) =
      Return \<lparr>w_event_store = s, pending_events = map ?e [3, 4], w_max_batch_size = 3\<rparr>"
    by (simp add: sync_round_def writer_new_def writer_add_event_def pending_count_def)
  with f show ?thesis by blast
qed

end

section \<open>Properties\<close>

text \<open>The unit tests of the batch writers pass: over a database that never fails and that is opened
  empty, with random identifiers that do not repeat and a codec that encodes the test events, the
  tests of a batch and of the synchronous writer do not panic; nor does the test of the processor, in
  any run in which the five events it sends have been flushed and counted by the time it reads the
  metrics.\<close>

theorem batch_unit_tests_pass:
  assumes "reliable_store R contents X" and "inj_on v4 {..<20}"
    and "db_open (store_options config_default) path = Ok d" and "contents d = []"
    and "\<forall>i<5. encodable X (serializer_new True) (loop_event U v4 clock i)"
    and "system_run R X (processor_start (fresh_store d) test_processor_config) ls s"
    and "sent ls = map (loop_event U v4 clock) [0..<5]" and "in_flight s = {#}" and "settled s"
    and "system_run R X s ks t" and "sent ks = []"
  shows "test_batch_creation U now v4 clock = Return ()
    \<and> test_sync_batch_writer U R X (Ok path) db_open v4 clock = Return ()
    \<and> test_batch_processor_basic R X s t = Return ()"
proof (intro conjI)
  note start = create_test_store_fresh[of db_open path d, OF assms(3)]
  note env = reliable_store.axioms(1)[OF assms(1)]
  note wf = fresh_store_wf[of contents d X, OF assms(4)] and log = fresh_store_log[of contents d X, OF assms(4)]
  note iter = reliable_store.iterates_total[OF assms(1)]
  have five: "[0..<5] = [0, 1, 2, 3, 4::nat]" by (simp add: upt_rec)
  show "test_batch_creation U now v4 clock = Return ()"
    by (simp add: test_batch_creation_def event_batch_new_def batch_add_event_def batch_is_empty_def
        batch_len_def batch_is_full_def)
  show "test_sync_batch_writer U R X (Inr path) db_open v4 clock = Return ()"
  proof -
    from reliable_store.sync_rounds_run[OF assms(1,4,2,5)] obtain s where
      s: "sync_rounds U R X v4 clock [0..<5] (writer_new (fresh_store d) 3) = Return
          \<lparr>w_event_store = s, pending_events = map (loop_event U v4 clock) [3, 4], w_max_batch_size = 3\<rparr>"
        "store_wf X contents s" "es_serializer s = serializer_new True"
        "event_log X contents s = sort_key (generate_event_key X) (map (loop_event U v4 clock) [0, 1, 2])"
      by blast
    let ?w = "\<lparr>w_event_store = s, pending_events = map (loop_event U v4 clock) [3, 4], w_max_batch_size = 3\<rparr>"
    have "mset (map (generate_event_key X) (event_log X contents s @ map (loop_event U v4 clock) [3, 4])) =
        mset (map (generate_event_key X) (map (loop_event U v4 clock) [0..<5]))"
      unfolding mset_map by (simp add: s(4) five)
    from mset_eq_imp_distinct_iff[OF this] loop_events_distinct[OF assms(2), of 5 X U clock]
    have "distinct (map (generate_event_key X) (event_log X contents s @ map (loop_event U v4 clock) [3, 4]))"
      by simp
    with reliable_store.flush_fresh[OF assms(1), of ?w] s(2,3) assms(5) obtain s' where
      s': "writer_flush R X ?w = (Inr (), ?w\<lparr>pending_events := [], w_event_store := s'\<rparr>)"
        "store_wf X contents s'" "length (event_log X contents s') = 5" by (auto simp: s(4))
    from event_store_env.get_latest_eq[OF env s'(2) iter] s'(3)
    obtain es where "get_latest_events R X s' 10 = Inr es" "length es = 5" by simp
    with start s(1) s'(1) show ?thesis
      by (simp add: test_sync_batch_writer_def pending_count_def del: upt_Suc)
  qed
  show "test_batch_processor_basic R X s t = Return ()"
  proof -
    let ?es = "map (loop_event U v4 clock) [0..<5]"
    have all: "system_run R X (processor_start (fresh_store d) test_processor_config) (ls @ ks) t"
      by (rule system_run_trans[OF assms(10,6)])
    note rest = run_at_rest[OF assms(6,8,10,11)]
    have enc: "\<forall>e\<in>set ?es. encodable X (es_serializer (fresh_store d)) e" using assms(5) by auto
    have dist: "distinct (map (generate_event_key X) (event_log X contents (fresh_store d) @ ?es))"
      using loop_events_distinct[OF assms(2), of 5 X U clock] by (simp add: log)
    have sent: "sent (ls @ ks) = ?es" using assms(7,11) by simp
    have ok: "\<forall>i took es r. Write i took es r \<in> set (ls @ ks) \<longrightarrow> \<not> isl r"
      by (rule reliable_store.reliable_run[OF assms(1) all refl wf, unfolded sent, OF enc dist])
    have "length (written ls) = 5"
      using run_conserves[OF assms(6)] assms(7,8) by (metis mset_eq_length length_map length_upt
          add_0 in_flight_start diff_zero)
    with ok_metrics[OF assms(6,9)] ok have "total_events_processed (get_metrics s) = 5"
      by (simp add: get_metrics_def)
    moreover from event_store_env.log_after_run[OF env all wf conjunct1[OF rest] ok, unfolded sent, OF dist]
    have t: "store_wf X contents (bp_store t)" "length (event_log X contents (bp_store t)) = 5"
      by (simp_all add: log)
    from event_store_env.get_latest_eq[OF env t(1) iter] t(2)
    obtain es where "get_latest_events R X (bp_store t) 10 = Inr es" "length es = 5" by simp
    ultimately show ?thesis by (simp add: test_batch_processor_basic_def)
  qed
qed

theorem batch_unit_tests_pass_witness:
  "\<exists>X (s :: ram BatchProcessor).
     test_sync_batch_writer binary_uuid ram_db X (Ok ''/tmp/x'') (\<lambda>_ _. Ok []) word_of_nat int = Return ()
     \<and> test_batch_processor_basic ram_db X s s = Return ()"
proof -
  let ?es = "map (loop_event binary_uuid word_of_nat int) [0..<5]"
  have enc: "\<forall>i<5. encodable (table_libs ?es) (serializer_new True) (loop_event binary_uuid word_of_nat int i)"
    using table_encodable[of _ ?es] by auto
  obtain ls s where s: "system_run ram_db (table_libs ?es) (processor_start (fresh_store []) test_processor_config) ls s"
    "sent ls = ?es" "in_flight s = {#}" "settled s"
    using sends_come_to_rest[of ?es test_processor_config ram_db "table_libs ?es" "fresh_store []"]
    by (auto simp: test_processor_config_def from_millis_def)
  from batch_unit_tests_pass[OF ram_reliable uuid_draws _ _ enc s run_refl,
      of "\<lambda>_ _. Ok []" "''/tmp/x''"] show ?thesis by (auto simp: sent_def)
qed

end
