(* ===== verification/Recovery.thy ===== *)
theory Recovery
  imports EventQueries
begin

text \<open>
  Crash recovery and consistency checking, \<^verbatim>\<open>recovery.rs\<close>: the four checks of
  \<^verbatim>\<open>RecoveryManager::recover\<close>, each a function from the counters to its result and the next
  counters. The store is read up to four times and not written: \<open>recover_during\<close> takes the state each
  query finds, \<open>recover\<close> is the case of a store nobody writes to.
  The balance check is shown to be a ledger of unbounded integers as long as it counts no
  error, and the whole report is given in terms of the stored events.
\<close>

section \<open>State, options, errors\<close>

datatype RecoveryError =
    EventStoreError EventStoreError
  | ConsistencyCheckFailed string
  | RecoveryFailed string
  | CorruptedData string

record RecoveryStats =
  total_events_checked :: u64
  corrupted_events_found :: u64
  corrupted_events_repaired :: u64
  consistency_errors :: u64
  recovery_duration_ms :: u64

record RecoveryOptions =
  auto_repair :: bool
  deep_check :: bool
  max_events_to_check :: u64
  opt_create_backup :: bool

definition recovery_options_default :: RecoveryOptions where
  "recovery_options_default =
     \<lparr>auto_repair = False, deep_check = True, max_events_to_check = 0, opt_create_backup = True\<rparr>"

record 'db RecoveryManager =
  rm_event_store :: "'db EventStore"
  rm_serializer :: EventSerializer

definition recovery_manager_new :: "'db EventStore \<Rightarrow> 'db RecoveryManager" where
  "recovery_manager_new s = \<lparr>rm_event_store = s, rm_serializer = serializer_new True\<rparr>"

section \<open>The checks\<close>

definition check_database_integrity ::
  "'db RocksDB \<Rightarrow> Libs \<Rightarrow> 'db RecoveryManager \<Rightarrow> RecoveryStats
     \<Rightarrow> (RecoveryError + unit) \<times> RecoveryStats"
where
  "check_database_integrity R X rm stats =
     (case query_events R X (rm_event_store rm) query_all of
        Inr result \<Rightarrow> (Ok (), stats\<lparr>total_events_checked := word_of_nat (length (events result))\<rparr>)
      | Inl e \<Rightarrow>
          (Err (ConsistencyCheckFailed (''Database integrity check failed: '' @ display_store_error e)),
           stats\<lparr>consistency_errors := consistency_errors stats + 1\<rparr>))"

fun expected_type :: "LedgerEvent \<Rightarrow> string" where
  "expected_type (AccountCreated _) = ''AccountCreated''"
| "expected_type (AccountStatusChanged _) = ''AccountStatusChanged''"
| "expected_type (AccountMetadataUpdated _) = ''AccountMetadataUpdated''"
| "expected_type (TransactionProcessed _) = ''TransactionProcessed''"
| "expected_type (BalanceUpdated _) = ''BalanceUpdated''"
| "expected_type (MerkleRootGenerated _) = ''MerkleRootGenerated''"
| "expected_type (DigestPublished _) = ''DigestPublished''"

text \<open>Ten years of 365 days, in nanoseconds. \<open>show_time\<close> is chrono's \<^verbatim>\<open>Display\<close>, \<open>now\<close> the
  reading of the clock, which the code takes after the first two checks.\<close>

definition ten_years :: int where
  "ten_years = 365 * 10 * 86400 * 1000000000"

definition validate_event_envelope ::
  "(DateTime \<Rightarrow> string) \<Rightarrow> DateTime \<Rightarrow> EventEnvelope \<Rightarrow> string + unit" where
  "validate_event_envelope show_time now envelope =
     (if event_type envelope \<noteq> expected_type (event_data envelope)
      then Err (''Event type mismatch: expected '' @ expected_type (event_data envelope) @
             '', got '' @ event_type envelope)
      else if aggregate_id envelope = [] then Err ''Empty aggregate_id''
      else if timestamp envelope > now
      then Err (''Event timestamp is in the future: '' @ show_time (timestamp envelope))
      else if timestamp envelope < now - ten_years
      then Err (''Event timestamp is too old: '' @ show_time (timestamp envelope))
      else Ok ())"

definition repair_event :: "EventEnvelope \<Rightarrow> RecoveryError + unit" where
  "repair_event envelope = Err (RecoveryFailed ''Event repair not implemented'')"

text \<open>\<open>clock i\<close> is the reading of the clock while the \<open>i\<close>-th event is validated.\<close>

fun consistency_loop ::
  "(DateTime \<Rightarrow> string) \<Rightarrow> (nat \<Rightarrow> DateTime) \<Rightarrow> RecoveryOptions \<Rightarrow> nat \<Rightarrow> EventEnvelope list
     \<Rightarrow> RecoveryStats \<Rightarrow> RecoveryStats"
where
  "consistency_loop show_time clock options i [] stats = stats"
| "consistency_loop show_time clock options i (envelope # envelopes) stats =
     (let stats = stats\<lparr>total_events_checked := total_events_checked stats + 1\<rparr> in
      case validate_event_envelope show_time (clock i) envelope of
        Inr _ \<Rightarrow> consistency_loop show_time clock options (i + 1) envelopes stats
      | Inl e \<Rightarrow>
          (let stats = stats\<lparr>corrupted_events_found := corrupted_events_found stats + 1\<rparr>;
               stats = (if auto_repair options \<and> \<not> isl (repair_event envelope)
                 then stats\<lparr>corrupted_events_repaired := corrupted_events_repaired stats + 1\<rparr>
                 else stats)
           in consistency_loop show_time clock options (i + 1) envelopes stats))"

definition check_event_consistency ::
  "'db RocksDB \<Rightarrow> Libs \<Rightarrow> (DateTime \<Rightarrow> string) \<Rightarrow> (nat \<Rightarrow> DateTime) \<Rightarrow> 'db RecoveryManager
     \<Rightarrow> RecoveryOptions \<Rightarrow> RecoveryStats \<Rightarrow> (RecoveryError + unit) \<times> RecoveryStats"
where
  "check_event_consistency R X show_time clock rm options stats =
     (case query_events R X (rm_event_store rm)
        (query_all\<lparr>q_limit := if max_events_to_check options > 0
           then Some (unat (max_events_to_check options)) else None\<rparr>) of
        Inl e \<Rightarrow> (Err (EventStoreError e), stats)
      | Inr result \<Rightarrow> (Ok (), consistency_loop show_time clock options 0 (events result) stats))"

text \<open>The replay of the balances: the accounts seen so far and the counters.\<close>

type_synonym replay = "(AccountId \<rightharpoonup> Amount) \<times> RecoveryStats"

definition replay_debit :: "TransactionProcessedEvent \<Rightarrow> replay \<Rightarrow> replay" where
  "replay_debit ev =
     (\<lambda>(balances, stats).
        case tp_from_account ev of
          None \<Rightarrow> (balances, stats)
        | Some from_account \<Rightarrow>
            (case balances from_account of
               None \<Rightarrow> (balances, stats)
             | Some current \<Rightarrow>
                 (case amount_subtract current (tp_amount ev) of
                    Inr new_balance \<Rightarrow> (balances(from_account \<mapsto> new_balance), stats)
                  | Inl _ \<Rightarrow> (balances, stats\<lparr>consistency_errors := consistency_errors stats + 1\<rparr>))))"

definition replay_credit :: "TransactionProcessedEvent \<Rightarrow> replay \<Rightarrow> replay" where
  "replay_credit ev =
     (\<lambda>(balances, stats).
        case tp_to_account ev of
          None \<Rightarrow> (balances, stats)
        | Some to_account \<Rightarrow>
            (case balances to_account of
               None \<Rightarrow> (balances, stats)
             | Some current \<Rightarrow>
                 (case amount_add current (tp_amount ev) of
                    Inr new_balance \<Rightarrow> (balances(to_account \<mapsto> new_balance), stats)
                  | Inl _ \<Rightarrow> (balances, stats\<lparr>consistency_errors := consistency_errors stats + 1\<rparr>))))"

definition replay_event :: "EventEnvelope \<Rightarrow> replay \<Rightarrow> replay" where
  "replay_event envelope =
     (\<lambda>(balances, stats).
        case event_data envelope of
          AccountCreated ev \<Rightarrow> (balances(ac_account_id ev \<mapsto> ac_initial_balance ev), stats)
        | BalanceUpdated ev \<Rightarrow> (balances(bu_account_id ev \<mapsto> bu_new_balance ev), stats)
        | TransactionProcessed ev \<Rightarrow> replay_credit ev (replay_debit ev (balances, stats))
        | _ \<Rightarrow> (balances, stats))"

definition check_account_balance_consistency ::
  "'db RocksDB \<Rightarrow> Libs \<Rightarrow> 'db RecoveryManager \<Rightarrow> RecoveryStats
     \<Rightarrow> (RecoveryError + unit) \<times> RecoveryStats"
where
  "check_account_balance_consistency R X rm stats =
     (case query_events R X (rm_event_store rm) query_all of
        Inl e \<Rightarrow> (Err (EventStoreError e), stats)
      | Inr result \<Rightarrow> (Ok (), snd (fold replay_event (events result) (Map.empty, stats))))"

fun temporal_loop ::
  "EventEnvelope list \<Rightarrow> DateTime option \<Rightarrow> RecoveryStats \<Rightarrow> RecoveryStats" where
  "temporal_loop [] last_timestamp stats = stats"
| "temporal_loop (envelope # envelopes) last_timestamp stats =
     temporal_loop envelopes (Some (timestamp envelope))
       (case last_timestamp of
          None \<Rightarrow> stats
        | Some last_ts \<Rightarrow>
            if timestamp envelope < last_ts
            then stats\<lparr>consistency_errors := consistency_errors stats + 1\<rparr> else stats)"

definition check_temporal_consistency ::
  "'db RocksDB \<Rightarrow> Libs \<Rightarrow> 'db RecoveryManager \<Rightarrow> RecoveryStats
     \<Rightarrow> (RecoveryError + unit) \<times> RecoveryStats"
where
  "check_temporal_consistency R X rm stats =
     (case query_events R X (rm_event_store rm) query_all of
        Inl e \<Rightarrow> (Err (EventStoreError e), stats)
      | Inr result \<Rightarrow> (Ok (), temporal_loop (events result) None stats))"

definition create_backup :: "'db RecoveryManager \<Rightarrow> string \<Rightarrow> RecoveryError + unit" where
  "create_backup rm backup_path = Ok ()"

definition restore_from_backup :: "'db RecoveryManager \<Rightarrow> string \<Rightarrow> RecoveryError + unit" where
  "restore_from_backup rm backup_path = Ok ()"

text \<open>A check followed by the rest: its error ends the recovery and drops the counters.\<close>

fun checked :: "(RecoveryError + unit) \<times> RecoveryStats \<Rightarrow> (RecoveryStats \<Rightarrow> RecoveryError + 'a)
    \<Rightarrow> RecoveryError + 'a" where
  "checked (Inl e, stats) k = Inl e"
| "checked (Inr _, stats) k = k stats"

text \<open>Other tasks may append between the four queries of a recovery: \<open>rms i\<close> is the manager with the
  store as the \<open>i\<close>-th query finds it. On a store nobody writes to they are all the same.\<close>

definition recover_during ::
  "'db RocksDB \<Rightarrow> Libs \<Rightarrow> (DateTime \<Rightarrow> string) \<Rightarrow> (nat \<Rightarrow> DateTime) \<Rightarrow> nat
     \<Rightarrow> (nat \<Rightarrow> 'db RecoveryManager) \<Rightarrow> RecoveryOptions \<Rightarrow> RecoveryError + RecoveryStats"
where
  "recover_during R X show_time clock elapsed_ms rms options =
     checked (check_database_integrity R X (rms 0)
        \<lparr>total_events_checked = 0, corrupted_events_found = 0, corrupted_events_repaired = 0,
         consistency_errors = 0, recovery_duration_ms = 0\<rparr>)
       (\<lambda>stats. checked (if deep_check options
            then check_event_consistency R X show_time clock (rms 1) options stats else (Ok (), stats))
         (\<lambda>stats. checked (check_account_balance_consistency R X (rms 2) stats)
           (\<lambda>stats. checked (check_temporal_consistency R X (rms 3) stats)
             (\<lambda>stats. Ok (stats\<lparr>recovery_duration_ms := word_of_nat elapsed_ms\<rparr>)))))"

definition recover ::
  "'db RocksDB \<Rightarrow> Libs \<Rightarrow> (DateTime \<Rightarrow> string) \<Rightarrow> (nat \<Rightarrow> DateTime) \<Rightarrow> nat \<Rightarrow> 'db RecoveryManager
     \<Rightarrow> RecoveryOptions \<Rightarrow> RecoveryError + RecoveryStats"
where
  "recover R X show_time clock elapsed_ms rm options =
     recover_during R X show_time clock elapsed_ms (\<lambda>_. rm) options"

section \<open>A ledger of unbounded integers\<close>

text \<open>What the events say about balances, as postings to a ledger: a balance is set, or an
  amount is added to the balance of a known account.\<close>

datatype Posting = SetTo AccountId int | Adjust AccountId int

fun postings :: "LedgerEvent \<Rightarrow> Posting list" where
  "postings (AccountCreated ev) = [SetTo (ac_account_id ev) (cents (ac_initial_balance ev))]"
| "postings (BalanceUpdated ev) = [SetTo (bu_account_id ev) (cents (bu_new_balance ev))]"
| "postings (TransactionProcessed ev) =
     (case tp_from_account ev of None \<Rightarrow> [] | Some a \<Rightarrow> [Adjust a (- cents (tp_amount ev))]) @
     (case tp_to_account ev of None \<Rightarrow> [] | Some b \<Rightarrow> [Adjust b (cents (tp_amount ev))])"
| "postings _ = []"

fun post :: "Posting \<Rightarrow> (AccountId \<rightharpoonup> int) \<Rightarrow> (AccountId \<rightharpoonup> int)" where
  "post (SetTo a x) m = m(a \<mapsto> x)"
| "post (Adjust a d) m = (case m a of None \<Rightarrow> m | Some x \<Rightarrow> m(a \<mapsto> x + d))"

definition ledger_postings :: "EventEnvelope list \<Rightarrow> Posting list" where
  "ledger_postings es = concat (map (\<lambda>e. postings (event_data e)) es)"

definition ideal_ledger :: "Posting list \<Rightarrow> (AccountId \<rightharpoonup> int) \<Rightarrow> (AccountId \<rightharpoonup> int)" where
  "ideal_ledger ps m = fold post ps m"

text \<open>The same postings on 64-bit amounts, counting those that do not fit.\<close>

fun post64 :: "Posting \<Rightarrow> (AccountId \<rightharpoonup> Amount) \<times> nat \<Rightarrow> (AccountId \<rightharpoonup> Amount) \<times> nat" where
  "post64 (SetTo a x) (m, n) = (m(a \<mapsto> Amount (word_of_int x)), n)"
| "post64 (Adjust a d) (m, n) =
     (case m a of
        None \<Rightarrow> (m, n)
      | Some c \<Rightarrow>
          if in_i64 (cents c + d) then (m(a \<mapsto> Amount (word_of_int (cents c + d))), n)
          else (m, n + 1))"

definition posting_errors :: "Posting list \<Rightarrow> (AccountId \<rightharpoonup> Amount) \<Rightarrow> nat" where
  "posting_errors ps m = snd (fold post64 ps (m, 0))"

definition add_errors :: "nat \<Rightarrow> RecoveryStats \<Rightarrow> RecoveryStats" where
  "add_errors n st = st\<lparr>consistency_errors := consistency_errors st + word_of_nat n\<rparr>"

lemma add_errors_0 [simp]: "add_errors 0 st = st"
  by (simp add: add_errors_def)

lemma add_errors_add: "add_errors m (add_errors n st) = add_errors (n + m) st"
  by (simp add: add_errors_def ac_simps)

lemma add_errors_Suc: "st\<lparr>consistency_errors := consistency_errors st + 1\<rparr> = add_errors 1 st"
  by (simp add: add_errors_def)

lemma add_errors_same: "consistency_errors (add_errors n st) = consistency_errors st \<longleftrightarrow> 2 ^ 64 dvd n"
  by (simp add: add_errors_def word_of_nat_eq_0_iff)

section \<open>The replay is the ledger\<close>

lemma word_of_cents: "Amount (word_of_int (cents a)) = a"
  by (cases a) simp

lemma amount_subtract_in: "amount_subtract a b = (if in_i64 (cents a + - cents b)
    then Inr (Amount (word_of_int (cents a + - cents b))) else Inl AmountUnderflow)"
  using sint_word_of_int_i64[of "cents a + - cents b"]
  by (auto simp: amount_subtract_Ok_iff amount_subtract_Err_iff)

lemma amount_add_in: "amount_add a b = (if in_i64 (cents a + cents b)
    then Inr (Amount (word_of_int (cents a + cents b))) else Inl AmountOverflow)"
  using sint_word_of_int_i64[of "cents a + cents b"]
  by (auto simp: amount_add_Ok_iff amount_add_Err_iff)

lemma post64_count: "fold post64 ps (m, n) = (fst (fold post64 ps (m, 0)), n + snd (fold post64 ps (m, 0)))"
proof (induction ps arbitrary: m n)
  case (Cons p ps)
  obtain m' k where p: "post64 p (m, 0) = (m', k)" by (cases "post64 p (m, 0)")
  then have "post64 p (m, n) = (m', n + k)"
    by (cases p) (auto split: option.splits if_splits)
  then show ?case
    using Cons.IH[of m' "n + k"] Cons.IH[of m' k] by (simp add: p add.assoc)
qed simp

lemma replay_debit_posts:
  "replay_debit ev (m, st) =
    (case tp_from_account ev of None \<Rightarrow> (m, st)
     | Some a \<Rightarrow> map_prod id (\<lambda>n. add_errors n st) (post64 (Adjust a (- cents (tp_amount ev))) (m, 0)))"
  by (simp add: replay_debit_def amount_subtract_in add_errors_Suc[symmetric] add_errors_def
      split: option.splits)

lemma replay_credit_posts:
  "replay_credit ev (m, st) =
    (case tp_to_account ev of None \<Rightarrow> (m, st)
     | Some a \<Rightarrow> map_prod id (\<lambda>n. add_errors n st) (post64 (Adjust a (cents (tp_amount ev))) (m, 0)))"
  by (simp add: replay_credit_def amount_add_in add_errors_def split: option.splits)

lemma replay_event_posts:
  "replay_event e (m, st) =
     map_prod id (\<lambda>n. add_errors n st) (fold post64 (postings (event_data e)) (m, 0))"
proof (cases "event_data e")
  case (TransactionProcessed ev)
  show ?thesis
    by (auto simp: replay_event_def TransactionProcessed replay_debit_posts replay_credit_posts
        add_errors_def split: option.splits)
qed (simp_all add: replay_event_def word_of_cents)

lemma replay_posts:
  "fold replay_event es (m, st) =
     map_prod id (\<lambda>n. add_errors n st) (fold post64 (ledger_postings es) (m, 0))"
proof (induction es arbitrary: m st)
  case Nil
  then show ?case by (simp add: ledger_postings_def)
next
  case (Cons e es)
  obtain m' k where p: "fold post64 (postings (event_data e)) (m, 0) = (m', k)"
    by (cases "fold post64 (postings (event_data e)) (m, 0)")
  have "ledger_postings (e # es) = postings (event_data e) @ ledger_postings es"
    by (simp add: ledger_postings_def)
  then show ?case
    using post64_count[of "ledger_postings es" m' k]
    by (simp add: replay_event_posts p Cons.IH add_errors_add map_prod_def split_beta)
qed

text \<open>The balances as integers, and ledgers that never leave the 64-bit range.\<close>

definition in_cents :: "(AccountId \<rightharpoonup> Amount) \<Rightarrow> (AccountId \<rightharpoonup> int)" where
  "in_cents m = map_option cents \<circ> m"

definition fits_i64 :: "Posting list \<Rightarrow> (AccountId \<rightharpoonup> int) \<Rightarrow> bool" where
  "fits_i64 ps m \<longleftrightarrow> (\<forall>k\<le>length ps. \<forall>a x. ideal_ledger (take k ps) m a = Some x \<longrightarrow> in_i64 x)"

lemma in_cents_simps [simp]:
  "in_cents Map.empty = Map.empty" "in_cents (m(a \<mapsto> c)) = (in_cents m)(a \<mapsto> cents c)"
  by (auto simp: in_cents_def)

lemma in_cents_apply: "in_cents m a = map_option cents (m a)"
  by (simp add: in_cents_def)

lemma ideal_ledger_simps [simp]:
  "ideal_ledger [] m = m" "ideal_ledger (p # ps) m = ideal_ledger ps (post p m)"
  by (simp_all add: ideal_ledger_def)

lemma fits_i64_Nil [simp]: "fits_i64 [] m \<longleftrightarrow> (\<forall>a x. m a = Some x \<longrightarrow> in_i64 x)"
  by (simp add: fits_i64_def)

lemma fits_i64_Cons [simp]:
  "fits_i64 (p # ps) m \<longleftrightarrow> (\<forall>a x. m a = Some x \<longrightarrow> in_i64 x) \<and> fits_i64 ps (post p m)"
proof
  assume f: "fits_i64 (p # ps) m"
  show "(\<forall>a x. m a = Some x \<longrightarrow> in_i64 x) \<and> fits_i64 ps (post p m)"
    unfolding fits_i64_def
  proof (intro conjI allI impI)
    fix a x assume "m a = Some x"
    then show "in_i64 x" using f[unfolded fits_i64_def, rule_format, of 0 a x] by simp
  next
    fix k a x assume "k \<le> length ps" "ideal_ledger (take k ps) (post p m) a = Some x"
    then show "in_i64 x" using f[unfolded fits_i64_def, rule_format, of "Suc k" a x] by simp
  qed
next
  assume r: "(\<forall>a x. m a = Some x \<longrightarrow> in_i64 x) \<and> fits_i64 ps (post p m)"
  show "fits_i64 (p # ps) m"
    unfolding fits_i64_def
  proof (intro allI impI)
    fix k a x assume "k \<le> length (p # ps)" "ideal_ledger (take k (p # ps)) m a = Some x"
    then show "in_i64 x" using r by (cases k) (auto simp: fits_i64_def)
  qed
qed

lemma in_cents_fit: "in_cents m a = Some x \<Longrightarrow> in_i64 x"
  by (auto simp: in_cents_apply sint_in_i64)

definition settable :: "Posting list \<Rightarrow> bool" where
  "settable ps \<longleftrightarrow> (\<forall>p\<in>set ps. case p of SetTo a x \<Rightarrow> in_i64 x | Adjust a d \<Rightarrow> True)"

lemma postings_settable: "settable (ledger_postings es)"
proof -
  have "settable (postings ev)" for ev
    by (cases ev) (auto simp: settable_def sint_in_i64 split: option.splits)
  then show ?thesis by (auto simp: settable_def ledger_postings_def)
qed

lemma post64_exact:
  "settable [p] \<Longrightarrow> post64 p (m, 0) = (m', n) \<Longrightarrow>
     n = 0 \<and> in_cents m' = post p (in_cents m)
     \<or> n = 1 \<and> (\<exists>a x. post p (in_cents m) a = Some x \<and> \<not> in_i64 x)"
  by (cases p) (auto simp: settable_def in_cents_apply sint_word_of_int_i64
      split: option.splits if_splits simp del: of_int_add)

lemma ledger_exact:
  "settable ps \<Longrightarrow> fold post64 ps (m, 0) = (m', n) \<Longrightarrow>
     (n = 0 \<longleftrightarrow> fits_i64 ps (in_cents m)) \<and> (n = 0 \<longrightarrow> in_cents m' = ideal_ledger ps (in_cents m))"
proof (induction ps arbitrary: m m' n)
  case Nil
  then show ?case by (auto dest: in_cents_fit)
next
  case (Cons p ps)
  obtain m1 k where p: "post64 p (m, 0) = (m1, k)" by (cases "post64 p (m, 0)")
  obtain m2 j where ps: "fold post64 ps (m1, 0) = (m2, j)" by (cases "fold post64 ps (m1, 0)")
  have set: "settable [p]" "settable ps" using Cons.prems(1) by (simp_all add: settable_def)
  have mn: "m' = m2" "n = k + j"
    using Cons.prems(2) post64_count[of ps m1 k] by (simp_all add: p ps)
  have fit: "\<forall>a x. in_cents m a = Some x \<longrightarrow> in_i64 x" using in_cents_fit by blast
  from post64_exact[OF set(1) p] show ?case
  proof (elim disjE conjE exE)
    assume "k = 0" "in_cents m1 = post p (in_cents m)"
    with Cons.IH[OF set(2) ps] fit mn show ?thesis by simp
  next
    fix a x assume "k = 1" "post p (in_cents m) a = Some x" "\<not> in_i64 x"
    moreover from this have "\<not> fits_i64 ps (post p (in_cents m))"
      by (cases ps) auto
    ultimately show ?thesis using mn by simp
  qed
qed

lemma posting_errors_bound: "posting_errors ps m \<le> length ps"
proof -
  have "snd (fold post64 ps (m, n)) \<le> n + length ps" for n
  proof (induction ps arbitrary: m n)
    case (Cons p ps)
    obtain m1 k where p: "post64 p (m, n) = (m1, k)" by (cases "post64 p (m, n)")
    then have "k \<le> n + 1" by (cases p) (auto split: option.splits if_splits)
    then show ?case using Cons.IH[of m1 k] by (simp add: p)
  qed simp
  from this[of 0] show ?thesis by (simp add: posting_errors_def)
qed

lemma length_postings: "length (ledger_postings es) \<le> 2 * length es"
proof -
  have "length (postings ev) \<le> 2" for ev by (cases ev) (auto split: option.splits)
  then show ?thesis
    by (induction es) (simp_all add: ledger_postings_def add_mono numeral_2_eq_2[symmetric]
        add_le_mono[of _ 2, simplified])
qed

section \<open>The other loops\<close>

lemma expected_type_name: "expected_type ev = event_type_name ev"
  by (cases ev) auto

lemma validate_Ok_iff:
  "validate_event_envelope show_time now e = Inr u \<longleftrightarrow>
     event_type e = event_type_name (event_data e) \<and> aggregate_id e \<noteq> []
     \<and> now - ten_years \<le> timestamp e \<and> timestamp e \<le> now"
  by (auto simp: validate_event_envelope_def expected_type_name)

definition invalid_count :: "(nat \<Rightarrow> DateTime) \<Rightarrow> nat \<Rightarrow> EventEnvelope list \<Rightarrow> nat" where
  "invalid_count clock i es =
     length (filter (\<lambda>(j, e). \<not> (event_type e = event_type_name (event_data e)
        \<and> aggregate_id e \<noteq> [] \<and> clock j - ten_years \<le> timestamp e \<and> timestamp e \<le> clock j))
       (enumerate i es))"

lemma consistency_loop_eq:
  "consistency_loop show_time clock o' i es st =
     st\<lparr>total_events_checked := total_events_checked st + word_of_nat (length es),
        corrupted_events_found := corrupted_events_found st + word_of_nat (invalid_count clock i es)\<rparr>"
proof (induction es arbitrary: i st)
  case Nil
  then show ?case by (simp add: invalid_count_def)
next
  case (Cons e es)
  show ?case
  proof (cases "validate_event_envelope show_time (clock i) e")
    case (Inl m)
    then have "\<not> (event_type e = event_type_name (event_data e) \<and> aggregate_id e \<noteq> []
        \<and> clock i - ten_years \<le> timestamp e \<and> timestamp e \<le> clock i)"
      using validate_Ok_iff[of show_time "clock i" e "()"] by auto
    then have "invalid_count clock i (e # es) = Suc (invalid_count clock (i + 1) es)"
      by (simp add: invalid_count_def)
    then show ?thesis by (simp add: Cons.IH Inl repair_event_def Let_def ac_simps)
  next
    case (Inr u)
    then have "invalid_count clock i (e # es) = invalid_count clock (i + 1) es"
      unfolding validate_Ok_iff by (simp add: invalid_count_def)
    then show ?thesis by (simp add: Cons.IH Inr Let_def ac_simps)
  qed
qed

fun backward_steps :: "DateTime list \<Rightarrow> nat" where
  "backward_steps (s # t # ts) = (if t < s then 1 else 0) + backward_steps (t # ts)"
| "backward_steps _ = 0"

lemma temporal_loop_eq:
  "temporal_loop es (Some s) st = add_errors (backward_steps (s # map timestamp es)) st"
  by (induction es arbitrary: s st) (simp_all add: add_errors_Suc add_errors_add)

lemma temporal_loop_None: "temporal_loop es None st = add_errors (backward_steps (map timestamp es)) st"
  by (cases es) (simp_all add: temporal_loop_eq)

lemma backward_steps_0: "backward_steps ts = 0 \<longleftrightarrow> sorted ts"
  by (induction ts rule: backward_steps.induct) (auto simp: not_less intro: order_trans)

section \<open>The report\<close>

text \<open>How many of \<open>n\<close> stored events the deep check looks at.\<close>

definition deep_limit :: "RecoveryOptions \<Rightarrow> nat" where
  "deep_limit o' = (if max_events_to_check o' > 0 then unat (max_events_to_check o') else 1000)"

text \<open>The report, from the log each query reads.\<close>

definition report ::
  "(nat \<Rightarrow> DateTime) \<Rightarrow> nat \<Rightarrow> RecoveryOptions \<Rightarrow> (nat \<Rightarrow> EventEnvelope list) \<Rightarrow> RecoveryStats" where
  "report clock elapsed_ms o' log =
     (let deep = (if deep_check o' then take (deep_limit o') (log 1) else [])
      in \<lparr>total_events_checked = word_of_nat (length (take 1000 (log 0)) + length deep),
          corrupted_events_found = word_of_nat (invalid_count clock 0 deep),
          corrupted_events_repaired = 0,
          consistency_errors = word_of_nat (posting_errors (ledger_postings (take 1000 (log 2))) Map.empty
            + backward_steps (map timestamp (take 1000 (log 3)))),
          recovery_duration_ms = word_of_nat elapsed_ms\<rparr>)"

lemma query_all_limit_eq:
  assumes "event_store_env R contents X" and "store_wf X contents s" and "iterates R (es_db s) Start"
  shows "\<exists>b. query_events R X s (query_all\<lparr>q_limit := l\<rparr>) =
    Inr \<lparr>events = take (case l of Some n \<Rightarrow> n | None \<Rightarrow> 1000) (event_log X contents s),
        total_count = None, has_more = b\<rparr>"
  using event_store_env.query_events_eq[OF assms(1,2), of "query_all\<lparr>q_limit := l\<rparr>"] assms(3)
  by (simp add: query_mode_def query_all_def page_def query_limit_def query_offset_def
      from_start_def account_ok_def[abs_def] end_ok_def[abs_def] type_ok_def[abs_def] Let_def
      takeWhile_eq_all_conv[THEN iffD2])

lemma query_all_eq:
  assumes "event_store_env R contents X" and "store_wf X contents s" and "iterates R (es_db s) Start"
  shows "\<exists>b. query_events R X s query_all =
    Inr \<lparr>events = take 1000 (event_log X contents s), total_count = None, has_more = b\<rparr>"
  using query_all_limit_eq[OF assms, of None] by (simp add: query_all_def)

lemma deep_query_eq:
  assumes "event_store_env R contents X" and "store_wf X contents s" and "iterates R (es_db s) Start"
  shows "\<exists>b. query_events R X s (query_all\<lparr>q_limit := if max_events_to_check o' > 0
           then Some (unat (max_events_to_check o')) else None\<rparr>) =
    Inr \<lparr>events = take (deep_limit o') (event_log X contents s), total_count = None, has_more = b\<rparr>"
  using query_all_limit_eq[OF assms, of "if max_events_to_check o' > 0
           then Some (unat (max_events_to_check o')) else None"]
  by (cases "max_events_to_check o' > 0") (simp_all add: deep_limit_def)

lemma recover_during_eq:
  assumes "event_store_env R contents X" and "\<And>i. store_wf X contents (stores i)"
    and "\<And>i. iterates R (es_db (stores i)) Start"
  shows "recover_during R X show_time clock ms (\<lambda>i. recovery_manager_new (stores i)) o' =
    Inr (report clock ms o' (\<lambda>i. event_log X contents (stores i)))"
proof -
  from query_all_eq[OF assms(1) assms(2,3)] obtain b where all: "\<And>i. query_events R X (stores i) query_all =
      Inr \<lparr>events = take 1000 (event_log X contents (stores i)), total_count = None, has_more = b i\<rparr>" by metis
  from deep_query_eq[OF assms(1) assms(2,3), of 1 o'] obtain c where deep: "query_events R X (stores 1)
      (query_all\<lparr>q_limit := if max_events_to_check o' > 0
           then Some (unat (max_events_to_check o')) else None\<rparr>) =
      Inr \<lparr>events = take (deep_limit o') (event_log X contents (stores 1)), total_count = None, has_more = c\<rparr>" ..
  show ?thesis
    by (simp add: recover_during_def check_database_integrity_def check_event_consistency_def
        check_account_balance_consistency_def check_temporal_consistency_def all deep[simplified]
        recovery_manager_new_def consistency_loop_eq temporal_loop_None replay_posts report_def
        posting_errors_def Let_def add_errors_def invalid_count_def ac_simps)
qed

lemma recover_eq:
  assumes "event_store_env R contents X" and "store_wf X contents s" and "iterates R (es_db s) Start"
  shows "recover R X show_time clock ms (recovery_manager_new s) o' =
    Inr (report clock ms o' (\<lambda>_. event_log X contents s))"
  unfolding recover_def using recover_during_eq[of R contents X "\<lambda>_. s"] assms by simp

lemma invalid_count_0:
  "invalid_count clock i es = 0 \<longleftrightarrow> (\<forall>j<length es. event_type (es ! j) = event_type_name (event_data (es ! j))
      \<and> aggregate_id (es ! j) \<noteq> [] \<and> clock (i + j) - ten_years \<le> timestamp (es ! j)
      \<and> timestamp (es ! j) \<le> clock (i + j))"
proof -
  have "set (enumerate i es) = (\<lambda>j. (i + j, es ! j)) ` {..<length es}"
    by (force simp: enumerate_eq_zip set_zip image_iff)
  then show ?thesis by (simp add: invalid_count_def filter_empty_conv) blast
qed

text \<open>A log of valid envelopes in the order of time: only the balances can be in error.\<close>

lemma valid_log_report:
  assumes "event_store_env R contents X" and "store_wf X contents s" and "iterates R (es_db s) Start"
    and "well_dated X contents s"
    and "\<forall>i<length (event_log X contents s).
      validate_event_envelope show_time (clock i) (event_log X contents s ! i) = Inr ()"
  shows "\<exists>st. recover R X show_time clock ms (recovery_manager_new s) options = Inr st
    \<and> corrupted_events_found st = 0
    \<and> consistency_errors st =
        word_of_nat (posting_errors (ledger_postings (take 1000 (event_log X contents s))) Map.empty)"
proof -
  let ?log = "event_log X contents s" and ?seen = "take 1000 (event_log X contents s)"
  have "invalid_count clock 0 (take n ?log) = 0" for n
    unfolding invalid_count_0 using assms(5) by (simp add: validate_Ok_iff)
  moreover have "backward_steps (map timestamp ?seen) = 0"
    using event_store_env.log_time_sorted[OF assms(1,2,4)]
    by (simp add: backward_steps_0 take_map[symmetric] sorted_wrt_take)
  moreover have "invalid_count clock 0 [] = 0" by (simp add: invalid_count_def)
  ultimately show ?thesis
    unfolding recover_eq[OF assms(1-3)] by (simp add: report_def Let_def)
qed

section \<open>Transfers\<close>

definition transfer_within :: "AccountId set \<Rightarrow> EventEnvelope \<Rightarrow> bool" where
  "transfer_within A e \<longleftrightarrow>
     (case event_data e of
        TransactionProcessed ev \<Rightarrow>
          (case (tp_from_account ev, tp_to_account ev) of
             (Some a, Some b) \<Rightarrow> a \<in> A \<and> b \<in> A
           | _ \<Rightarrow> False)
      | _ \<Rightarrow> False)"

definition ledger_total :: "(AccountId \<rightharpoonup> int) \<Rightarrow> int" where
  "ledger_total m = (\<Sum>a\<in>dom m. the (m a))"

lemma total_in_cents: "ledger_total (in_cents m) = (\<Sum>a\<in>dom m. cents (the (m a)))"
  by (auto simp: ledger_total_def in_cents_def option.map_sel intro!: sum.cong)

lemma post_adjust_total:
  "finite (dom m) \<Longrightarrow> a \<in> dom m \<Longrightarrow>
     dom (post (Adjust a d) m) = dom m \<and> ledger_total (post (Adjust a d) m) = ledger_total m + d"
  by (auto simp: ledger_total_def insert_absorb sum.remove[of _ a] split: option.splits)

lemma ideal_transfers_total:
  "finite (dom m) \<Longrightarrow> \<forall>e\<in>set es. transfer_within (dom m) e \<Longrightarrow>
     ledger_total (ideal_ledger (ledger_postings es) m) = ledger_total m
     \<and> dom (ideal_ledger (ledger_postings es) m) = dom m"
proof (induction es arbitrary: m)
  case Nil
  then show ?case by (simp add: ledger_postings_def)
next
  case (Cons e es)
  obtain ev a b where e: "event_data e = TransactionProcessed ev" "tp_from_account ev = Some a"
    "tp_to_account ev = Some b" "a \<in> dom m" "b \<in> dom m"
    using Cons.prems(2) by (auto simp: transfer_within_def split: LedgerEvent.splits option.splits)
  let ?m1 = "post (Adjust a (- cents (tp_amount ev))) m"
  let ?m2 = "post (Adjust b (cents (tp_amount ev))) ?m1"
  have 1: "dom ?m1 = dom m" "ledger_total ?m1 = ledger_total m - cents (tp_amount ev)"
    using post_adjust_total[OF Cons.prems(1) e(4)] by simp_all
  then have 2: "dom ?m2 = dom m" "ledger_total ?m2 = ledger_total m"
    using post_adjust_total[of ?m1 b "cents (tp_amount ev)"] Cons.prems(1) e(5)
    by (simp_all del: post.simps)
  have "ideal_ledger (ledger_postings (e # es)) m = ideal_ledger (ledger_postings es) ?m2"
    by (simp add: ledger_postings_def e del: post.simps)
  with Cons.IH[of ?m2] Cons.prems 2 show ?case by (simp del: post.simps)
qed

section \<open>Sample events\<close>

definition demo_transfer :: "Amount \<Rightarrow> EventEnvelope" where
  "demo_transfer x = event_envelope_new 9 8 ''t'' 1
     (TransactionProcessed \<lparr>tp_transaction_id = TransactionId 1, tp_transaction_type = Transfer,
        tp_from_account = Some (AccountId 1), tp_to_account = Some (AccountId 2), tp_amount = x,
        tp_currency = currency_usd,
        tp_metadata = \<lparr>tm_reference = None, tm_description = None, tm_tags = fmempty,
          tm_regulatory_flags = []\<rparr>, tp_processed_at = 8\<rparr>) event_metadata_default"

definition demo_balance :: "uuid \<Rightarrow> Amount \<Rightarrow> EventEnvelope" where
  "demo_balance a x = event_envelope_new 9 8 ''b'' 1
     (BalanceUpdated \<lparr>bu_account_id = AccountId a, bu_old_balance = amount_zero, bu_new_balance = x,
        bu_currency = currency_usd, bu_transaction_id = None, bu_updated_at = 8\<rparr>)
     event_metadata_default"

section \<open>Properties\<close>

text \<open>C16: The report of a recovery, exactly. On a readable store \<open>recover\<close> succeeds; it looks at the
  first 1000 events at most (\<open>max_events_to_check\<close> bounds the deep check only, and 0 means 1000
  there too), a deep check counts its events on top of the events the integrity check counted,
  corrupted events are those whose envelope is invalid, none is ever repaired, and the consistency
  errors are the postings that leave the 64-bit range and the steps back in time.\<close>

theorem recover_reports:
  assumes "event_store_env R contents X" and "store_wf X contents s" and "iterates R (es_db s) Start"
  shows "recover R X show_time clock ms (recovery_manager_new s) options =
    Ok (let log = event_log X contents s; seen = take 1000 log;
            deep = (if deep_check options
              then take (if max_events_to_check options > 0 then unat (max_events_to_check options)
                   else 1000) log else [])
        in \<lparr>total_events_checked = word_of_nat (length seen + length deep),
            corrupted_events_found = word_of_nat (invalid_count clock 0 deep),
            corrupted_events_repaired = 0,
            consistency_errors = word_of_nat (posting_errors (ledger_postings seen) Map.empty
              + backward_steps (map timestamp seen)),
            recovery_duration_ms = word_of_nat ms\<rparr>)"
  unfolding recover_eq[OF assms] report_def deep_limit_def by (simp only: Let_def)

theorem recover_reports_witness:
  "\<exists>st. recover ram_db three_libs (\<lambda>_. ''t'') (\<lambda>_. 10) 4 (recovery_manager_new filled)
      recovery_options_default = Ok st \<and> total_events_checked st = 6"
  using recover_reports[OF three_env filled_wf ram_iterates, of "\<lambda>_. ''t''" "\<lambda>_. 10" 4
      recovery_options_default]
  by (simp add: filled_log recovery_options_default_def Let_def)

text \<open>A recovery during which others append: each check is exact about the store as its own query
  found it, so the counters of one report may speak of four different logs.\<close>

theorem recovery_during_appends:
  assumes "event_store_env R contents X" and "\<And>i. store_wf X contents (stores i)"
    and "\<And>i. iterates R (es_db (stores i)) Start" and "log = (\<lambda>i. event_log X contents (stores i))"
  shows "recover_during R X show_time clock ms (\<lambda>i. recovery_manager_new (stores i)) options =
    Ok (let deep = (if deep_check options
              then take (if max_events_to_check options > 0 then unat (max_events_to_check options)
                   else 1000) (log 1) else [])
        in \<lparr>total_events_checked = word_of_nat (length (take 1000 (log 0)) + length deep),
            corrupted_events_found = word_of_nat (invalid_count clock 0 deep),
            corrupted_events_repaired = 0,
            consistency_errors = word_of_nat (posting_errors (ledger_postings (take 1000 (log 2))) Map.empty
              + backward_steps (map timestamp (take 1000 (log 3)))),
            recovery_duration_ms = word_of_nat ms\<rparr>)"
  unfolding recover_during_eq[OF assms(1-3)] report_def deep_limit_def assms(4) by (simp only: Let_def)

theorem recovery_during_appends_witness:
  "\<exists>st. recover_during ram_db three_libs (\<lambda>_. ''t'') (\<lambda>_. 10) 4
      (\<lambda>i. recovery_manager_new (if i = 0 then demo_store True else filled)) recovery_options_default = Ok st
    \<and> total_events_checked st = 3"
proof -
  have "event_log three_libs ram_contents (demo_store True) = []"
    by (simp add: event_log_def demo_store_def map_filter_simps)
  then show ?thesis
    using recovery_during_appends[OF three_env _ ram_iterates refl,
        of "\<lambda>i. if i = 0 then demo_store True else filled" "\<lambda>_. ''t''" "\<lambda>_. 10" 4 recovery_options_default]
    by (simp add: filled_log filled_wf demo_wf recovery_options_default_def Let_def)
qed

text \<open>A recovery of a healthy store reports nothing: when its events are dated from 1970 on,
  every envelope the deep check reads is valid by the clock and the balances fit 64 bits, no
  corrupted event and no consistency error is counted.\<close>

theorem healthy_store_reports_nothing:
  assumes "event_store_env R contents X" and "store_wf X contents s" and "iterates R (es_db s) Start"
    and "well_dated X contents s"
    and "\<forall>i<length (event_log X contents s).
      validate_event_envelope show_time (clock i) (event_log X contents s ! i) = Ok ()"
    and "fits_i64 (ledger_postings (take 1000 (event_log X contents s))) Map.empty"
  shows "\<exists>st. recover R X show_time clock ms (recovery_manager_new s) options = Ok st
    \<and> corrupted_events_found st = 0 \<and> consistency_errors st = 0"
proof -
  have "posting_errors (ledger_postings (take 1000 (event_log X contents s))) Map.empty = 0"
    using ledger_exact[OF postings_settable prod.collapse[symmetric],
        of "take 1000 (event_log X contents s)" Map.empty] assms(6)
    by (simp add: posting_errors_def)
  with valid_log_report[OF assms(1-5)] show ?thesis by auto
qed

theorem healthy_store_reports_nothing_witness:
  "\<exists>st. recover ram_db three_libs (\<lambda>_. ''t'') (\<lambda>_. 10) 4 (recovery_manager_new filled)
      recovery_options_default = Ok st \<and> corrupted_events_found st = 0 \<and> consistency_errors st = 0"
proof (rule healthy_store_reports_nothing[OF three_env filled_wf ram_iterates filled_dated])
  have "\<forall>e\<in>set (event_log three_libs ram_contents filled).
      validate_event_envelope (\<lambda>_. ''t'') 10 e = Ok ()"
    by (simp add: filled_log validate_Ok_iff root_event_def ten_years_def)
  then show "\<forall>i<length (event_log three_libs ram_contents filled).
      validate_event_envelope (\<lambda>_. ''t'') 10 (event_log three_libs ram_contents filled ! i) = Ok ()"
    by simp
  show "fits_i64 (ledger_postings (take 1000 (event_log three_libs ram_contents filled))) Map.empty"
    by (simp add: filled_log ledger_postings_def root_event_def)
qed

text \<open>Repair and backup are not carried out: \<open>auto_repair\<close> and \<open>create_backup\<close> change nothing
  in what a recovery returns, no recovery reports a repaired event, and the backup functions
  answer that they succeeded.\<close>

theorem recover_never_repairs:
  "recover R X show_time clock ms rm (options\<lparr>auto_repair := x, opt_create_backup := y\<rparr>) =
     recover R X show_time clock ms rm options
   \<and> (\<forall>st. recover R X show_time clock ms rm options \<noteq> Ok st \<or> corrupted_events_repaired st = 0)
   \<and> isl (repair_event envelope)
   \<and> create_backup rm path = Ok () \<and> restore_from_backup rm path = Ok ()"
  by (auto simp: recover_def recover_during_def check_database_integrity_def check_event_consistency_def
      check_account_balance_consistency_def check_temporal_consistency_def consistency_loop_eq
      temporal_loop_None replay_posts add_errors_def repair_event_def create_backup_def
      restore_from_backup_def split: sum.splits if_splits)

text \<open>Validation accepts an envelope just when its type name is that of its data, its
  aggregate is named, and its date lies in the ten years before the clock's reading; so an envelope
  built by \<open>EventEnvelope::new\<close> is accepted until it is ten years old.\<close>

theorem validation_exact:
  "(validate_event_envelope show_time now e = Ok () \<longleftrightarrow>
     event_type e = event_type_name (event_data e) \<and> aggregate_id e \<noteq> []
     \<and> now - ten_years \<le> timestamp e \<and> timestamp e \<le> now)
   \<and> (validate_event_envelope show_time (t + d) (event_envelope_new v4 t agg ver ev md) = Ok ()
      \<longleftrightarrow> agg \<noteq> [] \<and> 0 \<le> d \<and> d \<le> ten_years)"
  by (auto simp: validate_Ok_iff)

text \<open>C14: The balance check is a ledger of unbounded integers. It counts no error just when, in
  that ledger, no balance ever leaves the 64-bit range, and then the balances it ends with are the
  ledger's. (A debit beyond the balance is no error by itself: the balance goes negative.)\<close>

theorem balance_replay_exact:
  assumes "length es \<le> 1000"
    and "fold replay_event es (Map.empty, st) = (balances, st')"
  shows "(consistency_errors st' = consistency_errors st
      \<longleftrightarrow> fits_i64 (ledger_postings es) Map.empty)
    \<and> (consistency_errors st' = consistency_errors st
      \<longrightarrow> in_cents balances = ideal_ledger (ledger_postings es) Map.empty)"
proof -
  obtain m n where f: "fold post64 (ledger_postings es) (Map.empty, 0) = (m, n)"
    by (cases "fold post64 (ledger_postings es) (Map.empty, 0)")
  have "n \<le> 2000"
    using posting_errors_bound[of "ledger_postings es" Map.empty] length_postings[of es] assms(1) f
    by (simp add: posting_errors_def)
  then have "2 ^ 64 dvd n \<longleftrightarrow> n = 0" by (auto dest: dvd_imp_le)
  moreover have "balances = m" "st' = add_errors n st"
    using assms(2) by (simp_all add: replay_posts f)
  ultimately show ?thesis
    using ledger_exact[OF postings_settable f] by (simp add: add_errors_same)
qed

theorem balance_replay_exact_witness:
  "\<exists>balances st'. fold replay_event [demo_balance 1 (Amount 5), demo_balance 2 (Amount 0), demo_transfer (Amount 7)]
      (Map.empty, add_errors 0 undefined) = (balances, st')
    \<and> in_cents balances = [AccountId 1 \<mapsto> - 2, AccountId 2 \<mapsto> 7]"
proof -
  let ?es = "[demo_balance 1 (Amount 5), demo_balance 2 (Amount 0), demo_transfer (Amount 7)]"
  obtain balances st' where f: "fold replay_event ?es (Map.empty, add_errors 0 undefined) = (balances, st')"
    by (cases "fold replay_event ?es (Map.empty, add_errors 0 undefined)")
  from balance_replay_exact[OF _ f] have "in_cents balances = [AccountId 1 \<mapsto> - 2, AccountId 2 \<mapsto> 7]"
    by (simp add: demo_balance_def demo_transfer_def ledger_postings_def in_i64_def i64_min_def
        i64_max_def fun_upd_twist)
  with f show ?thesis by blast
qed

text \<open>C15: Transfers between known accounts conserve money in the replay: unless an error is
  counted, the sum of the balances after the transfers is the sum before them, and no account
  appears or disappears.\<close>

theorem transfers_conserve_money:
  assumes "length es \<le> 1000" and "finite (dom m)" and "\<forall>e\<in>set es. transfer_within (dom m) e"
    and "fold replay_event es (m, st) = (m', st')"
    and "consistency_errors st' = consistency_errors st"
  shows "dom m' = dom m
    \<and> (\<Sum>a\<in>dom m. cents (the (m' a))) = (\<Sum>a\<in>dom m. cents (the (m a)))"
proof -
  obtain m1 n where f: "fold post64 (ledger_postings es) (m, 0) = (m1, n)"
    by (cases "fold post64 (ledger_postings es) (m, 0)")
  have "n \<le> 2000"
    using posting_errors_bound[of "ledger_postings es" m] length_postings[of es] assms(1) f
    by (simp add: posting_errors_def)
  then have "2 ^ 64 dvd n \<Longrightarrow> n = 0" by (auto dest: dvd_imp_le)
  moreover have "m' = m1" "st' = add_errors n st"
    using assms(4) by (simp_all add: replay_posts f)
  ultimately have "in_cents m' = ideal_ledger (ledger_postings es) (in_cents m)"
    using ledger_exact[OF postings_settable f] assms(5) by (simp add: add_errors_same)
  moreover have dom: "dom (in_cents k) = dom k" for k by (auto simp: in_cents_def)
  ultimately have "dom m' = dom m \<and> ledger_total (in_cents m') = ledger_total (in_cents m)"
    using ideal_transfers_total[of "in_cents m" es] assms(2,3) by metis
  then show ?thesis unfolding total_in_cents by metis
qed

theorem transfers_conserve_money_witness:
  "\<exists>m' st'. fold replay_event [demo_transfer (Amount 3)]
      ([AccountId 1 \<mapsto> Amount 5, AccountId 2 \<mapsto> Amount 1], undefined) = (m', st')
    \<and> (\<Sum>a\<in>{AccountId 1, AccountId 2}. cents (the (m' a))) = 6"
proof -
  let ?m = "[AccountId 1 \<mapsto> Amount 5, AccountId 2 \<mapsto> Amount 1]"
  have f: "fold replay_event [demo_transfer (Amount 3)] (?m, undefined) =
      (?m(AccountId 1 \<mapsto> Amount 2, AccountId 2 \<mapsto> Amount 4), undefined)"
    by (simp add: demo_transfer_def replay_event_def replay_debit_def replay_credit_def
        amount_subtract_def amount_add_def checked_add_def checked_sub_def in_i64_def i64_min_def
        i64_max_def)
  have "transfer_within (dom ?m) (demo_transfer (Amount 3))"
    by (simp add: transfer_within_def demo_transfer_def)
  from transfers_conserve_money[OF _ _ _ f] this f show ?thesis
    by (auto simp: insert_commute)
qed

text \<open>A transfer whose debit underflows is still credited: one error is counted, the payer
  keeps its balance and the payee's grows, so the replayed money grows by the amount.\<close>

theorem failed_debit_still_credits:
  assumes "event_data e = TransactionProcessed ev"
    and "tp_from_account ev = Some a" and "tp_to_account ev = Some b" and "a \<noteq> b"
    and "m a = Some x" and "m b = Some y"
    and "\<not> in_i64 (cents x - cents (tp_amount ev))" and "in_i64 (cents y + cents (tp_amount ev))"
  shows "\<exists>z. replay_event e (m, st) =
      (m(b \<mapsto> z), st\<lparr>consistency_errors := consistency_errors st + 1\<rparr>)
    \<and> cents z = cents y + cents (tp_amount ev)"
  using assms sint_word_of_int_i64[OF assms(8)]
  by (intro exI[of _ "Amount (word_of_int (cents y + cents (tp_amount ev)))"])
    (simp add: replay_event_def replay_debit_def replay_credit_def amount_subtract_in amount_add_in
      del: of_int_add)

theorem failed_debit_still_credits_witness:
  "\<exists>z. replay_event (demo_transfer (Amount 3))
      ([AccountId 1 \<mapsto> Amount (- (2 ^ 63)), AccountId 2 \<mapsto> Amount 1], st) =
      ([AccountId 1 \<mapsto> Amount (- (2 ^ 63)), AccountId 2 \<mapsto> z],
       st\<lparr>consistency_errors := consistency_errors st + 1\<rparr>) \<and> cents z = 4"
  using failed_debit_still_credits[of "demo_transfer (Amount 3)" _ "AccountId 1" "AccountId 2"
      "[AccountId 1 \<mapsto> Amount (- (2 ^ 63)), AccountId 2 \<mapsto> Amount 1]" "Amount (- (2 ^ 63))" "Amount 1" st]
  by (simp add: demo_transfer_def in_i64_def i64_min_def i64_max_def)

end
