(* ===== verification/RecoveryTests.thy ===== *)
theory RecoveryTests
  imports Recovery StoreTests
begin

text \<open>
  The two unit tests of \<^verbatim>\<open>recovery.rs\<close>. The first passes; the second cannot, because the deep check of
  the default options counts again the events that the integrity check has counted.
\<close>

section \<open>The tests\<close>

definition test_recovery_empty_store ::
  "'db RocksDB \<Rightarrow> Libs \<Rightarrow> (DateTime \<Rightarrow> string) \<Rightarrow> string + string
     \<Rightarrow> (Options \<Rightarrow> string \<Rightarrow> string + 'db) \<Rightarrow> (nat \<Rightarrow> DateTime) \<Rightarrow> nat \<Rightarrow> unit run"
where
  "test_recovery_empty_store R X show_time temp_dir db_open clock elapsed_ms =
     run_bind (create_test_store temp_dir db_open) (\<lambda>store.
     let recovery_manager = recovery_manager_new store; options = recovery_options_default in
     run_bind (unwrap (recover R X show_time clock elapsed_ms recovery_manager options)) (\<lambda>stats.
     run_bind (asserting (corrupted_events_found stats = 0)) (\<lambda>_.
     asserting (consistency_errors stats = 0))))"

text \<open>The event is the one of the store's first test; the recovery reads the clock after it.\<close>

definition test_recovery_with_events ::
  "UuidText \<Rightarrow> 'db RocksDB \<Rightarrow> Libs \<Rightarrow> (DateTime \<Rightarrow> string) \<Rightarrow> string + string
     \<Rightarrow> (Options \<Rightarrow> string \<Rightarrow> string + 'db) \<Rightarrow> (nat \<Rightarrow> uuid) \<Rightarrow> (nat \<Rightarrow> DateTime) \<Rightarrow> nat \<Rightarrow> unit run"
where
  "test_recovery_with_events U R X show_time temp_dir db_open v4 clock elapsed_ms =
     run_bind (create_test_store temp_dir db_open) (\<lambda>store.
     let event = test_account_created (account_id_new (v4 0)) (amount_new 1000) (clock 0);
         envelope = event_envelope_new (v4 1) (clock 1) (uuid_to_string U (account_uuid (ac_account_id event))) 1
           (AccountCreated event) event_metadata_default in
     run_bind (unwrap_state (append_event R X store envelope)) (\<lambda>store.
     let recovery_manager = recovery_manager_new store; options = recovery_options_default in
     run_bind (unwrap (recover R X show_time (\<lambda>i. clock (i + 2)) elapsed_ms recovery_manager options)) (\<lambda>stats.
     run_bind (asserting (total_events_checked stats = 1)) (\<lambda>_.
     run_bind (asserting (corrupted_events_found stats = 0)) (\<lambda>_.
     asserting (consistency_errors stats = 0))))))"

section \<open>Properties\<close>

text \<open>C17: The repository's tests of the recovery, over a database that never fails and that is opened
  empty: recovering the empty store passes, and the test with one event panics, whatever the
  identifiers, the clock and the codec, since the report counts the event twice.\<close>

theorem recovery_unit_tests:
  assumes "reliable_store R contents X" and "db_open (store_options config_default) path = Ok d"
    and "contents d = []"
  shows "test_recovery_empty_store R X show_time (Ok path) db_open clock elapsed_ms = Return ()
    \<and> test_recovery_with_events U R X show_time (Ok path) db_open v4 clock elapsed_ms = Panic"
proof
  note start = create_test_store_fresh[of db_open path d, OF assms(2)]
  note env = reliable_store.axioms(1)[OF assms(1)] and iter = reliable_store.iterates_total[OF assms(1)]
  note wf = fresh_store_wf[of contents d X, OF assms(3)] and log = fresh_store_log[of contents d X, OF assms(3)]
  show "test_recovery_empty_store R X show_time (Inr path) db_open clock elapsed_ms = Return ()"
    by (simp add: test_recovery_empty_store_def start recover_eq[OF env wf iter] report_def log Let_def
        invalid_count_def posting_errors_def ledger_postings_def)
  show "test_recovery_with_events U R X show_time (Inr path) db_open v4 clock elapsed_ms = Panic"
  proof -
    let ?a = "append_event R X (fresh_store d) (event_envelope_new (v4 1) (clock 1)
      (uuid_to_string U (account_uuid (account_id_new (v4 0)))) 1 (AccountCreated
        (test_account_created (account_id_new (v4 0)) (amount_new 1000) (clock 0))) event_metadata_default)"
    show ?thesis
    proof (cases "\<exists>s. ?a = (Inr (), s)")
      case False
      then obtain e s where "?a = (Inl e, s)" by (cases ?a; cases "fst ?a") auto
      then show ?thesis by (simp add: test_recovery_with_events_def start test_account_created_def Let_def)
    next
      case True
      then obtain s where s: "?a = (Inr (), s)" ..
      from event_store_env.log_after_event[OF env wf s]
      have s': "store_wf X contents s" "length (event_log X contents s) = 1" by (simp_all add: log)
      have "total_events_checked (report (\<lambda>i. clock (i + 2)) elapsed_ms recovery_options_default
          (\<lambda>_. event_log X contents s)) = 2"
        by (simp add: report_def s'(2) recovery_options_default_def deep_limit_def Let_def)
      then show ?thesis
        using s by (simp add: test_recovery_with_events_def start test_account_created_def
            recover_eq[OF env s'(1) iter] Let_def)
    qed
  qed
qed

theorem recovery_unit_tests_witness:
  "test_recovery_empty_store ram_db (table_libs []) (\<lambda>_. ''t'') (Ok ''/tmp/x'') (\<lambda>_ _. Ok []) int 3 = Return ()
   \<and> test_recovery_with_events binary_uuid ram_db (table_libs [retrieve_envelope binary_uuid word_of_nat int])
       (\<lambda>_. ''t'') (Ok ''/tmp/x'') (\<lambda>_ _. Ok []) word_of_nat int 3 = Panic"
  using recovery_unit_tests[OF ram_reliable, of "\<lambda>_ _. Ok []" "''/tmp/x''" "[]"] by simp

end
