(* ===== verification/SerializationTests.thy ===== *)
theory SerializationTests
  imports StoreTests
begin

text \<open>
  The unit tests of \<^verbatim>\<open>serialization.rs\<close> and the tests of \<^verbatim>\<open>serialization_tests.rs\<close>: one event of every
  type through the serializer and back, compression, keys and hashes. A test is a run that returns
  or panics; identifiers are drawn from \<open>v4\<close>, readings of the clock from \<open>clock\<close>, each in the order
  of the code.
\<close>

section \<open>Writing and reading back\<close>

text \<open>\<^verbatim>\<open>serialize(..).unwrap()\<close>, then \<^verbatim>\<open>deserialize(..).unwrap()\<close>.\<close>

definition write_and_read :: "Libs \<Rightarrow> EventSerializer \<Rightarrow> EventEnvelope \<Rightarrow> EventEnvelope run" where
  "write_and_read X ser envelope =
     run_bind (unwrap (serialize X ser envelope)) (\<lambda>serialized. unwrap (deserialize X ser serialized))"

text \<open>Draws and readings from the \<open>n\<close>-th on, for the part of a test that follows another.\<close>

definition later :: "nat \<Rightarrow> (nat \<Rightarrow> 'a) \<Rightarrow> nat \<Rightarrow> 'a" where
  "later n f = (\<lambda>i. f (n + i))"

definition numbered_tags :: "(nat \<Rightarrow> string) \<Rightarrow> (nat \<Rightarrow> string) \<Rightarrow> nat \<Rightarrow> (string, string) fmap" where
  "numbered_tags key value n = fold (\<lambda>i. fmupd (key i) (value i)) [0..<n] fmempty"

definition account_envelope ::
  "UuidText \<Rightarrow> uuid \<Rightarrow> DateTime \<Rightarrow> EventMetadata \<Rightarrow> AccountCreatedEvent \<Rightarrow> EventEnvelope" where
  "account_envelope U v4 now md event =
     event_envelope_new v4 now (uuid_to_string U (account_uuid (ac_account_id event))) 1
       (AccountCreated event) md"

section \<open>Tests of the serializer's own file\<close>

definition usd_account :: "AccountId \<Rightarrow> i64 \<Rightarrow> (string, string) fmap \<Rightarrow> string list \<Rightarrow> DateTime \<Rightarrow> AccountCreatedEvent"
where
  "usd_account a balance tags flags now =
     \<lparr>ac_account_id = a, ac_account_type = Customer, ac_currency = currency_usd,
      ac_initial_balance = amount_new balance,
      ac_metadata = \<lparr>am_account_type = Customer, am_currency = currency_usd, am_tags = tags,
        am_regulatory_flags = flags\<rparr>,
      ac_created_at = now\<rparr>"

definition roundtrip_envelope :: "UuidText \<Rightarrow> (nat \<Rightarrow> uuid) \<Rightarrow> (nat \<Rightarrow> DateTime) \<Rightarrow> EventEnvelope" where
  "roundtrip_envelope U v4 clock =
     account_envelope U (v4 1) (clock 1) event_metadata_default
       (usd_account (account_id_new (v4 0)) 1000 fmempty [''PSD2_COMPLIANT''] (clock 0))"

definition test_serialization_roundtrip ::
  "UuidText \<Rightarrow> Libs \<Rightarrow> (nat \<Rightarrow> uuid) \<Rightarrow> (nat \<Rightarrow> DateTime) \<Rightarrow> unit run" where
  "test_serialization_roundtrip U X v4 clock =
     (let envelope = roundtrip_envelope U v4 clock in
      run_bind (write_and_read X (serializer_new False) envelope) (\<lambda>deserialized.
      run_bind (asserting (event_id envelope = event_id deserialized)) (\<lambda>_.
      run_bind (asserting (aggregate_id envelope = aggregate_id deserialized)) (\<lambda>_.
      asserting (aggregate_version envelope = aggregate_version deserialized)))))"

definition large_envelope :: "UuidText \<Rightarrow> (nat \<Rightarrow> uuid) \<Rightarrow> (nat \<Rightarrow> DateTime) \<Rightarrow> EventEnvelope" where
  "large_envelope U v4 clock =
     account_envelope U (v4 1) (clock 1) event_metadata_default
       (usd_account (account_id_new (v4 0)) 1000
         (numbered_tags (\<lambda>i. ''key_'' @ show_nat i) (\<lambda>i. ''value_'' @ show_nat i) 100)
         [''PSD2_COMPLIANT''] (clock 0))"

definition test_compression_serialization ::
  "UuidText \<Rightarrow> Libs \<Rightarrow> (nat \<Rightarrow> uuid) \<Rightarrow> (nat \<Rightarrow> DateTime) \<Rightarrow> unit run" where
  "test_compression_serialization U X v4 clock =
     (let envelope = large_envelope U v4 clock in
      run_bind (write_and_read X (serializer_new True) envelope) (\<lambda>deserialized.
      asserting (event_id envelope = event_id deserialized)))"

definition from_be_bytes :: "bytes \<Rightarrow> u64" where
  "from_be_bytes b = word_of_nat (foldl (\<lambda>n d. n * 256 + unat d) 0 b)"

definition test_key_generation ::
  "UuidText \<Rightarrow> Libs \<Rightarrow> (nat \<Rightarrow> uuid) \<Rightarrow> (nat \<Rightarrow> DateTime) \<Rightarrow> unit run" where
  "test_key_generation U X v4 clock =
     (let envelope = account_envelope U (v4 1) (clock 1) event_metadata_default
            (usd_account (account_id_new (v4 0)) 1000 fmempty [] (clock 0));
          key = generate_event_key X envelope in
      run_bind (asserting (length key = 24)) (\<lambda>_.
      let timestamp_bytes = take 8 key; timestamp = from_be_bytes timestamp_bytes in
      run_bind (asserting (timestamp > 0)) (\<lambda>_.
      let uuid_bytes = take 16 (drop 8 key) in
      asserting (length uuid_bytes = 16))))"

section \<open>One event of every type\<close>

definition created_event :: "AccountId \<Rightarrow> DateTime \<Rightarrow> AccountCreatedEvent" where
  "created_event a now =
     \<lparr>ac_account_id = a, ac_account_type = Customer, ac_currency = currency_eur,
      ac_initial_balance = amount_new 50000,
      ac_metadata = \<lparr>am_account_type = Customer, am_currency = currency_eur,
        am_tags = fmupd ''region'' ''EU'' (fmupd ''customer_tier'' ''premium'' fmempty),
        am_regulatory_flags = [''PSD2_COMPLIANT'', ''GDPR_COMPLIANT'']\<rparr>,
      ac_created_at = now\<rparr>"

definition created_envelope :: "UuidText \<Rightarrow> (nat \<Rightarrow> uuid) \<Rightarrow> (nat \<Rightarrow> DateTime) \<Rightarrow> EventEnvelope" where
  "created_envelope U v4 clock =
     account_envelope U (v4 1) (clock 1)
       \<lparr>correlation_id = Some ''test-correlation-123'', causation_id = Some ''test-causation-456'',
        user_id = Some ''user-789'', source = ''ledgerfs-test''\<rparr>
       (created_event (account_id_new (v4 0)) (clock 0))"

definition test_account_created_event ::
  "UuidText \<Rightarrow> Libs \<Rightarrow> (nat \<Rightarrow> uuid) \<Rightarrow> (nat \<Rightarrow> DateTime) \<Rightarrow> EventSerializer \<Rightarrow> unit run" where
  "test_account_created_event U X v4 clock serializer =
     (let event = created_event (account_id_new (v4 0)) (clock 0);
          envelope = created_envelope U v4 clock in
      run_bind (write_and_read X serializer envelope) (\<lambda>deserialized.
      run_bind (asserting (event_id envelope = event_id deserialized)) (\<lambda>_.
      run_bind (asserting (event_type envelope = event_type deserialized)) (\<lambda>_.
      run_bind (asserting (aggregate_id envelope = aggregate_id deserialized)) (\<lambda>_.
      run_bind (asserting (aggregate_version envelope = aggregate_version deserialized)) (\<lambda>_.
      case event_data deserialized of
        AccountCreated ev \<Rightarrow> asserting
          (ac_account_id event = ac_account_id ev \<and> ac_account_type event = ac_account_type ev
           \<and> ac_currency event = ac_currency ev \<and> ac_initial_balance event = ac_initial_balance ev
           \<and> am_tags (ac_metadata event) = am_tags (ac_metadata ev)
           \<and> am_regulatory_flags (ac_metadata event) = am_regulatory_flags (ac_metadata ev))
      | _ \<Rightarrow> Panic))))))"

definition status_event :: "(nat \<Rightarrow> uuid) \<Rightarrow> (nat \<Rightarrow> DateTime) \<Rightarrow> AccountStatusChangedEvent" where
  "status_event v4 clock =
     \<lparr>sc_account_id = account_id_new (v4 0), sc_old_status = Active, sc_new_status = Suspended,
      sc_reason = Some ''Suspicious activity detected'', sc_changed_at = clock 0\<rparr>"

definition status_envelope :: "UuidText \<Rightarrow> (nat \<Rightarrow> uuid) \<Rightarrow> (nat \<Rightarrow> DateTime) \<Rightarrow> EventEnvelope" where
  "status_envelope U v4 clock = 
     event_envelope_new (v4 1) (clock 1) (uuid_to_string U (account_uuid (account_id_new (v4 0)))) 2
       (AccountStatusChanged (status_event v4 clock)) event_metadata_default"

definition test_account_status_changed_event ::
  "UuidText \<Rightarrow> Libs \<Rightarrow> (nat \<Rightarrow> uuid) \<Rightarrow> (nat \<Rightarrow> DateTime) \<Rightarrow> EventSerializer \<Rightarrow> unit run" where
  "test_account_status_changed_event U X v4 clock serializer =
     (let event = status_event v4 clock; envelope = status_envelope U v4 clock in
      run_bind (write_and_read X serializer envelope) (\<lambda>deserialized.
      case event_data deserialized of
        AccountStatusChanged ev \<Rightarrow> asserting
          (sc_account_id event = sc_account_id ev
           \<and> sc_old_status event = sc_old_status ev
           \<and> sc_new_status event = sc_new_status ev
           \<and> sc_reason event = sc_reason ev)
      | _ \<Rightarrow> Panic))"

definition metadata_updated_event :: "(nat \<Rightarrow> uuid) \<Rightarrow> (nat \<Rightarrow> DateTime) \<Rightarrow> AccountMetadataUpdatedEvent" where
  "metadata_updated_event v4 clock =
     \<lparr>mu_account_id = account_id_new (v4 0),
      mu_old_metadata = \<lparr>am_account_type = Customer, am_currency = currency_usd, am_tags = fmempty,
        am_regulatory_flags = [''PSD2_COMPLIANT'']\<rparr>,
      mu_new_metadata = \<lparr>am_account_type = Customer, am_currency = currency_usd,
        am_tags = fmupd ''risk_level'' ''low'' fmempty,
        am_regulatory_flags = [''PSD2_COMPLIANT'', ''AML_VERIFIED'']\<rparr>,
      mu_updated_at = clock 0\<rparr>"

definition metadata_updated_envelope :: "UuidText \<Rightarrow> (nat \<Rightarrow> uuid) \<Rightarrow> (nat \<Rightarrow> DateTime) \<Rightarrow> EventEnvelope" where
  "metadata_updated_envelope U v4 clock = 
     event_envelope_new (v4 1) (clock 1) (uuid_to_string U (account_uuid (account_id_new (v4 0)))) 3
       (AccountMetadataUpdated (metadata_updated_event v4 clock)) event_metadata_default"

definition test_account_metadata_updated_event ::
  "UuidText \<Rightarrow> Libs \<Rightarrow> (nat \<Rightarrow> uuid) \<Rightarrow> (nat \<Rightarrow> DateTime) \<Rightarrow> EventSerializer \<Rightarrow> unit run" where
  "test_account_metadata_updated_event U X v4 clock serializer =
     (let event = metadata_updated_event v4 clock; envelope = metadata_updated_envelope U v4 clock in
      run_bind (write_and_read X serializer envelope) (\<lambda>deserialized.
      case event_data deserialized of
        AccountMetadataUpdated ev \<Rightarrow> asserting
          (mu_account_id event = mu_account_id ev
           \<and> am_tags (mu_old_metadata event) = am_tags (mu_old_metadata ev)
           \<and> am_tags (mu_new_metadata event) = am_tags (mu_new_metadata ev)
           \<and> am_regulatory_flags (mu_old_metadata event) = am_regulatory_flags (mu_old_metadata ev)
           \<and> am_regulatory_flags (mu_new_metadata event) = am_regulatory_flags (mu_new_metadata ev))
      | _ \<Rightarrow> Panic))"

definition processed_event :: "(nat \<Rightarrow> uuid) \<Rightarrow> (nat \<Rightarrow> DateTime) \<Rightarrow> TransactionProcessedEvent" where
  "processed_event v4 clock =
     \<lparr>tp_transaction_id = transaction_id_new (v4 2), tp_transaction_type = Transfer,
      tp_from_account = Some (account_id_new (v4 0)), tp_to_account = Some (account_id_new (v4 1)),
      tp_amount = amount_new 100000, tp_currency = currency_eur,
      tp_metadata = \<lparr>tm_reference = Some ''INV-2024-001'', tm_description = Some ''Invoice payment'',
        tm_tags = fmupd ''reference'' ''INV-2024-001'' (fmupd ''payment_method'' ''SEPA'' fmempty),
        tm_regulatory_flags = [''AML_CHECKED'']\<rparr>,
      tp_processed_at = clock 0\<rparr>"

definition processed_envelope :: "UuidText \<Rightarrow> (nat \<Rightarrow> uuid) \<Rightarrow> (nat \<Rightarrow> DateTime) \<Rightarrow> EventEnvelope" where
  "processed_envelope U v4 clock = 
     event_envelope_new (v4 3) (clock 1) (uuid_to_string U (transaction_uuid (transaction_id_new (v4 2)))) 1
       (TransactionProcessed (processed_event v4 clock)) event_metadata_default"

definition test_transaction_processed_event ::
  "UuidText \<Rightarrow> Libs \<Rightarrow> (nat \<Rightarrow> uuid) \<Rightarrow> (nat \<Rightarrow> DateTime) \<Rightarrow> EventSerializer \<Rightarrow> unit run" where
  "test_transaction_processed_event U X v4 clock serializer =
     (let event = processed_event v4 clock; envelope = processed_envelope U v4 clock in
      run_bind (write_and_read X serializer envelope) (\<lambda>deserialized.
      case event_data deserialized of
        TransactionProcessed ev \<Rightarrow> asserting
          (tp_transaction_id event = tp_transaction_id ev
           \<and> tp_transaction_type event = tp_transaction_type ev
           \<and> tp_from_account event = tp_from_account ev
           \<and> tp_to_account event = tp_to_account ev
           \<and> tp_amount event = tp_amount ev
           \<and> tp_currency event = tp_currency ev
           \<and> tm_tags (tp_metadata event) = tm_tags (tp_metadata ev))
      | _ \<Rightarrow> Panic))"

definition balance_event :: "(nat \<Rightarrow> uuid) \<Rightarrow> (nat \<Rightarrow> DateTime) \<Rightarrow> BalanceUpdatedEvent" where
  "balance_event v4 clock =
     \<lparr>bu_account_id = account_id_new (v4 0), bu_old_balance = amount_new 50000,
      bu_new_balance = amount_new 150000, bu_currency = currency_eur,
      bu_transaction_id = Some (transaction_id_new (v4 1)), bu_updated_at = clock 0\<rparr>"

definition balance_envelope :: "UuidText \<Rightarrow> (nat \<Rightarrow> uuid) \<Rightarrow> (nat \<Rightarrow> DateTime) \<Rightarrow> EventEnvelope" where
  "balance_envelope U v4 clock = 
     event_envelope_new (v4 2) (clock 1) (uuid_to_string U (account_uuid (account_id_new (v4 0)))) 4
       (BalanceUpdated (balance_event v4 clock)) event_metadata_default"

definition test_balance_updated_event ::
  "UuidText \<Rightarrow> Libs \<Rightarrow> (nat \<Rightarrow> uuid) \<Rightarrow> (nat \<Rightarrow> DateTime) \<Rightarrow> EventSerializer \<Rightarrow> unit run" where
  "test_balance_updated_event U X v4 clock serializer =
     (let event = balance_event v4 clock; envelope = balance_envelope U v4 clock in
      run_bind (write_and_read X serializer envelope) (\<lambda>deserialized.
      case event_data deserialized of
        BalanceUpdated ev \<Rightarrow> asserting
          (bu_account_id event = bu_account_id ev
           \<and> bu_old_balance event = bu_old_balance ev
           \<and> bu_new_balance event = bu_new_balance ev
           \<and> bu_currency event = bu_currency ev
           \<and> bu_transaction_id event = bu_transaction_id ev)
      | _ \<Rightarrow> Panic))"

definition merkle_event :: "(nat \<Rightarrow> uuid) \<Rightarrow> (nat \<Rightarrow> DateTime) \<Rightarrow> MerkleRootGeneratedEvent" where
  "merkle_event v4 clock =
     \<lparr>mr_block_height = 12345,
      mr_root_hash = ''a1b2c3d4e5f6789012345678901234567890abcdef1234567890abcdef123456'',
      mr_transaction_count = 1000,
      mr_previous_root_hash = Some ''0123456789abcdef0123456789abcdef0123456789abcdef0123456789abcdef'',
      mr_generated_at = clock 0\<rparr>"

definition merkle_envelope :: "UuidText \<Rightarrow> (nat \<Rightarrow> uuid) \<Rightarrow> (nat \<Rightarrow> DateTime) \<Rightarrow> EventEnvelope" where
  "merkle_envelope U v4 clock = 
     event_envelope_new (v4 0) (clock 1)
       (''block-'' @ show_nat (unat (mr_block_height (merkle_event v4 clock)))) 1
       (MerkleRootGenerated (merkle_event v4 clock)) event_metadata_default"

definition test_merkle_root_generated_event ::
  "UuidText \<Rightarrow> Libs \<Rightarrow> (nat \<Rightarrow> uuid) \<Rightarrow> (nat \<Rightarrow> DateTime) \<Rightarrow> EventSerializer \<Rightarrow> unit run" where
  "test_merkle_root_generated_event U X v4 clock serializer =
     (let event = merkle_event v4 clock; envelope = merkle_envelope U v4 clock in
      run_bind (write_and_read X serializer envelope) (\<lambda>deserialized.
      case event_data deserialized of
        MerkleRootGenerated ev \<Rightarrow> asserting
          (mr_block_height event = mr_block_height ev
           \<and> mr_root_hash event = mr_root_hash ev
           \<and> mr_transaction_count event = mr_transaction_count ev
           \<and> mr_previous_root_hash event = mr_previous_root_hash ev)
      | _ \<Rightarrow> Panic))"

definition digest_event :: "(nat \<Rightarrow> uuid) \<Rightarrow> (nat \<Rightarrow> DateTime) \<Rightarrow> DigestPublishedEvent" where
  "digest_event v4 clock =
     \<lparr>dp_digest = \<lparr>ld_root_hash = ''digest_root_hash_12345'', ld_block_height = 12345, ld_timestamp = clock 0,
        ld_transaction_count = 5000\<rparr>,
      dp_storage_location = ''s3://ledger-digests/2024/01/15/digest.json'', dp_published_at = clock 1\<rparr>"

definition digest_envelope :: "UuidText \<Rightarrow> (nat \<Rightarrow> uuid) \<Rightarrow> (nat \<Rightarrow> DateTime) \<Rightarrow> EventEnvelope" where
  "digest_envelope U v4 clock = 
     event_envelope_new (v4 0) (clock 2) ''digest-publication'' 1
       (DigestPublished (digest_event v4 clock)) event_metadata_default"

definition test_digest_published_event ::
  "UuidText \<Rightarrow> Libs \<Rightarrow> (nat \<Rightarrow> uuid) \<Rightarrow> (nat \<Rightarrow> DateTime) \<Rightarrow> EventSerializer \<Rightarrow> unit run" where
  "test_digest_published_event U X v4 clock serializer =
     (let event = digest_event v4 clock; envelope = digest_envelope U v4 clock in
      run_bind (write_and_read X serializer envelope) (\<lambda>deserialized.
      case event_data deserialized of
        DigestPublished ev \<Rightarrow> asserting
          (ld_transaction_count (dp_digest event) = ld_transaction_count (dp_digest ev)
           \<and> ld_block_height (dp_digest event) = ld_block_height (dp_digest ev)
           \<and> ld_root_hash (dp_digest event) = ld_root_hash (dp_digest ev)
           \<and> dp_storage_location event = dp_storage_location ev)
      | _ \<Rightarrow> Panic))"

definition test_all_event_types_serialization ::
  "UuidText \<Rightarrow> Libs \<Rightarrow> (nat \<Rightarrow> uuid) \<Rightarrow> (nat \<Rightarrow> DateTime) \<Rightarrow> unit run" where
  "test_all_event_types_serialization U X v4 clock =
     (let serializer = serializer_new False in
      run_bind (test_account_created_event U X v4 clock serializer) (\<lambda>_.
      run_bind (test_account_status_changed_event U X (later 2 v4) (later 2 clock) serializer) (\<lambda>_.
      run_bind (test_account_metadata_updated_event U X (later 4 v4) (later 4 clock) serializer) (\<lambda>_.
      run_bind (test_transaction_processed_event U X (later 6 v4) (later 6 clock) serializer) (\<lambda>_.
      run_bind (test_balance_updated_event U X (later 10 v4) (later 8 clock) serializer) (\<lambda>_.
      run_bind (test_merkle_root_generated_event U X (later 13 v4) (later 10 clock) serializer) (\<lambda>_.
      test_digest_published_event U X (later 14 v4) (later 12 clock) serializer)))))))"

text \<open>The envelopes of that test.\<close>

definition every_type :: "UuidText \<Rightarrow> (nat \<Rightarrow> uuid) \<Rightarrow> (nat \<Rightarrow> DateTime) \<Rightarrow> EventEnvelope list" where
  "every_type U v4 clock =
     [created_envelope U v4 clock, status_envelope U (later 2 v4) (later 2 clock),
      metadata_updated_envelope U (later 4 v4) (later 4 clock),
      processed_envelope U (later 6 v4) (later 6 clock), balance_envelope U (later 10 v4) (later 8 clock),
      merkle_envelope U (later 13 v4) (later 10 clock), digest_envelope U (later 14 v4) (later 12 clock)]"

section \<open>Compression, keys, versions, hashes\<close>

definition efficiency_envelope :: "UuidText \<Rightarrow> (nat \<Rightarrow> uuid) \<Rightarrow> (nat \<Rightarrow> DateTime) \<Rightarrow> EventEnvelope" where
  "efficiency_envelope U v4 clock =
     account_envelope U (v4 1) (clock 1) event_metadata_default
       (usd_account (account_id_new (v4 0)) 1000000
         (numbered_tags (\<lambda>i. ''tag_'' @ show_nat i)
           (\<lambda>i. ''value_'' @ show_nat i @ ''_with_some_longer_content'') 100)
         (map (\<lambda>i. ''FLAG_'' @ show_nat i) [0..<50]) (clock 0))"

definition test_compression_efficiency ::
  "UuidText \<Rightarrow> Libs \<Rightarrow> (nat \<Rightarrow> uuid) \<Rightarrow> (nat \<Rightarrow> DateTime) \<Rightarrow> unit run" where
  "test_compression_efficiency U X v4 clock =
     (let serializer_uncompressed = serializer_new False; serializer_compressed = serializer_new True;
          envelope = efficiency_envelope U v4 clock in
      run_bind (unwrap (serialize X serializer_uncompressed envelope)) (\<lambda>uncompressed.
      run_bind (unwrap (serialize X serializer_compressed envelope)) (\<lambda>compressed.
      run_bind (asserting (length compressed < length uncompressed)) (\<lambda>_.
      run_bind (unwrap (deserialize X serializer_uncompressed uncompressed)) (\<lambda>uncompressed_result.
      run_bind (unwrap (deserialize X serializer_compressed compressed)) (\<lambda>compressed_result.
      run_bind (asserting (event_id envelope = event_id uncompressed_result)) (\<lambda>_.
      asserting (event_id envelope = event_id compressed_result))))))))"

definition create_test_envelope :: "UuidText \<Rightarrow> uuid \<Rightarrow> uuid \<Rightarrow> DateTime \<Rightarrow> DateTime \<Rightarrow> EventEnvelope" where
  "create_test_envelope U v4 v4' now timestamp' =
     (let account_id = account_id_new v4;
          event = usd_account account_id 1000 fmempty [] timestamp';
          envelope = account_envelope U v4' now event_metadata_default event
      in envelope\<lparr>timestamp := timestamp'\<rparr>)"

definition test_key_generation_ordering ::
  "UuidText \<Rightarrow> Libs \<Rightarrow> (nat \<Rightarrow> uuid) \<Rightarrow> (nat \<Rightarrow> DateTime) \<Rightarrow> unit run" where
  "test_key_generation_ordering U X v4 clock =
     (let now = clock 0;
          event1 = create_test_envelope U (v4 0) (v4 1) (clock 1) (now - 10 * 1000000000);
          event2 = create_test_envelope U (v4 2) (v4 3) (clock 2) (now - 5 * 1000000000);
          event3 = create_test_envelope U (v4 4) (v4 5) (clock 3) now;
          key1 = generate_event_key X event1; key2 = generate_event_key X event2;
          key3 = generate_event_key X event3 in
      run_bind (asserting (key1 < key2)) (\<lambda>_.
      run_bind (asserting (key2 < key3)) (\<lambda>_.
      run_bind (asserting (length key1 = 24)) (\<lambda>_.
      run_bind (asserting (length key2 = 24)) (\<lambda>_.
      asserting (length key3 = 24))))))"

definition test_format_versioning ::
  "UuidText \<Rightarrow> Libs \<Rightarrow> (nat \<Rightarrow> uuid) \<Rightarrow> (nat \<Rightarrow> DateTime) \<Rightarrow> unit run" where
  "test_format_versioning U X v4 clock =
     (let serializer = serializer_new False;
          envelope = create_test_envelope U (v4 0) (v4 1) (clock 1) (clock 0) in
      run_bind (write_and_read X serializer envelope) (\<lambda>deserialized.
      run_bind (asserting (event_id envelope = event_id deserialized)) (\<lambda>_.
      run_bind (asserting (aggregate_id envelope = aggregate_id deserialized)) (\<lambda>_.
      asserting (aggregate_version envelope = aggregate_version deserialized)))))"

definition test_hash_calculation_consistency ::
  "UuidText \<Rightarrow> (EventEnvelope \<Rightarrow> string option) \<Rightarrow> (bytes \<Rightarrow> bytes) \<Rightarrow> (bytes \<Rightarrow> string)
     \<Rightarrow> (nat \<Rightarrow> uuid) \<Rightarrow> (nat \<Rightarrow> DateTime) \<Rightarrow> unit run" where
  "test_hash_calculation_consistency U to_json sha256 hex_encode v4 clock =
     (let envelope = create_test_envelope U (v4 0) (v4 1) (clock 1) (clock 0) in
      run_bind (calculate_hash to_json sha256 hex_encode envelope) (\<lambda>hash1.
      run_bind (calculate_hash to_json sha256 hex_encode envelope) (\<lambda>hash2.
      run_bind (asserting (hash1 = hash2)) (\<lambda>_.
      run_bind (asserting (length hash1 = 64)) (\<lambda>_.
      let envelope2 = create_test_envelope U (v4 2) (v4 3) (clock 3) (clock 2) in
      run_bind (calculate_hash to_json sha256 hex_encode envelope2) (\<lambda>hash3.
      asserting (hash1 \<noteq> hash3)))))))"

section \<open>Lemmas\<close>

lemma write_and_read_back:
  assumes "codec_libs X" and "encodable X ser e"
  shows "write_and_read X ser e = Return e"
proof -
  from assms(2) obtain b where "serialize X ser e = Inr b" by (auto simp: encodable_def)
  with codec_libs.deserialize_serialize[OF assms(1) this] show ?thesis by (simp add: write_and_read_def)
qed

lemma foldl_be_digits:
  "x < 256 ^ n \<Longrightarrow> foldl (\<lambda>n d. n * 256 + unat d) a (be_digits n x) = a * 256 ^ n + x"
proof (induction n arbitrary: a x)
  case (Suc n)
  let ?b = "(256::nat) ^ n"
  have "x div ?b < 256" using Suc.prems by (simp add: less_mult_imp_div_less mult.commute)
  then have "unat (word_of_nat (x div ?b) :: u8) = x div ?b"
    by (simp add: unat_of_nat take_bit_nat_eq_self)
  moreover have "foldl (\<lambda>n d. n * 256 + unat d) (a * 256 + x div ?b) (be_digits n (x mod ?b)) =
      (a * 256 + x div ?b) * ?b + x mod ?b"
    by (rule Suc.IH) simp
  ultimately show ?case by (simp add: algebra_simps)
qed simp

lemma from_to_be_bytes: "from_be_bytes (to_be_bytes w) = w"
  unfolding from_be_bytes_def to_be_bytes_def foldl_be_digits[OF unat_u64_bound] by simp

lemma test_envelope_timestamp [simp]:
  "timestamp (create_test_envelope U u v now t) = t" "event_id (create_test_envelope U u v now t) = EventId v"
  by (simp_all add: create_test_envelope_def account_envelope_def Let_def)

lemma sample_event_data [simp]:
  "event_data (created_envelope U v4 clock) = AccountCreated (created_event (account_id_new (v4 0)) (clock 0))"
  "event_data (status_envelope U v4 clock) = AccountStatusChanged (status_event v4 clock)"
  "event_data (metadata_updated_envelope U v4 clock) = AccountMetadataUpdated (metadata_updated_event v4 clock)"
  "event_data (processed_envelope U v4 clock) = TransactionProcessed (processed_event v4 clock)"
  "event_data (balance_envelope U v4 clock) = BalanceUpdated (balance_event v4 clock)"
  "event_data (merkle_envelope U v4 clock) = MerkleRootGenerated (merkle_event v4 clock)"
  "event_data (digest_envelope U v4 clock) = DigestPublished (digest_event v4 clock)"
  by (simp_all add: created_envelope_def account_envelope_def status_envelope_def
      metadata_updated_envelope_def processed_envelope_def balance_envelope_def merkle_envelope_def
      digest_envelope_def)

lemmas event_type_test_defs =
  test_account_created_event_def test_account_status_changed_event_def
  test_account_metadata_updated_event_def test_transaction_processed_event_def
  test_balance_updated_event_def test_merkle_root_generated_event_def test_digest_published_event_def

text \<open>The tests whose outcome rests on the crates: compression passes just when the frame is shorter
  than its content, the hashes just when the two samples do not collide.\<close>

lemma compression_efficiency_outcome:
  assumes "codec_libs X" and "serialize X (serializer_new False) (efficiency_envelope U v4 clock) = Inr b"
    and "serialize X (serializer_new True) (efficiency_envelope U v4 clock) = Inr c"
  shows "test_compression_efficiency U X v4 clock = asserting (length c < length b)"
  using codec_libs.deserialize_serialize[OF assms(1,2)] codec_libs.deserialize_serialize[OF assms(1,3)]
  by (cases "length c < length b") (simp_all add: test_compression_efficiency_def assms(2,3) Let_def)

lemma hash_consistency_outcome:
  assumes "\<And>e. to_json e = Some (json e)" and "\<And>b. length (hex_encode (sha256 b)) = 64"
  shows "test_hash_calculation_consistency U to_json sha256 hex_encode v4 clock = asserting
    (hex_encode (sha256 (map of_char (json (create_test_envelope U (v4 0) (v4 1) (clock 1) (clock 0)))))
     \<noteq> hex_encode (sha256 (map of_char (json (create_test_envelope U (v4 2) (v4 3) (clock 3) (clock 2))))))"
  by (simp add: test_hash_calculation_consistency_def calculate_hash_def assms Let_def)

section \<open>Properties\<close>

text \<open>With a codec that encodes the samples, the seven events of
  \<^verbatim>\<open>serialization_tests.rs\<close>, one of each constructor, the account with a hundred tags under
  compression and the two samples of a single account come back with every field the tests compare.\<close>

lemma event_type_tests_return:
  assumes "codec_libs X" and "encodable X (serializer_new True) (large_envelope U v4 clock)"
    and "\<forall>e\<in>set (roundtrip_envelope U v4 clock # create_test_envelope U (v4 0) (v4 1) (clock 1) (clock 0)
      # every_type U v4 clock). encodable X (serializer_new False) e"
  shows "test_all_event_types_serialization U X v4 clock = Return ()
    \<and> test_serialization_roundtrip U X v4 clock = Return ()
    \<and> test_compression_serialization U X v4 clock = Return ()
    \<and> test_format_versioning U X v4 clock = Return ()"
proof -
  have read: "write_and_read X (serializer_new False) e = Return e"
    if "e \<in> set (roundtrip_envelope U v4 clock # create_test_envelope U (v4 0) (v4 1) (clock 1) (clock 0)
      # every_type U v4 clock)" for e
    using write_and_read_back[OF assms(1)] assms(3) that by blast
  show ?thesis
    by (simp add: test_all_event_types_serialization_def event_type_test_defs every_type_def read
        test_serialization_roundtrip_def test_compression_serialization_def test_format_versioning_def
        write_and_read_back[OF assms(1,2)] Let_def)
qed

text \<open>The tests of the keys pass on every clock from ten seconds after 1970 on (while the nanoseconds
  fit): the first eight bytes of a key hold the time, and events five seconds apart have keys in the
  order of time, whatever their identifiers.\<close>

theorem key_tests_pass:
  assumes "codec_libs X" and "keyable (clock 1)" and "0 < clock 1"
    and "keyable (clock 0)" and "10 * 1000000000 \<le> clock 0"
  shows "test_key_generation U X v4 clock = Return ()
    \<and> test_key_generation_ordering U X v4 clock = Return ()"
proof
  let ?e = "account_envelope U (v4 1) (clock 1) event_metadata_default
    (usd_account (account_id_new (v4 0)) 1000 fmempty [] (clock 0))"
  have "timestamp ?e = clock 1" by (simp add: account_envelope_def)
  then have "take 8 (generate_event_key X ?e) = to_be_bytes (nanos_u64 X (clock 1))"
    by (simp add: generate_event_key_def)
  moreover have "nanos_u64 X (clock 1) > 0"
    using codec_libs.uint_nanos_keyable[OF assms(1,2)] assms(3) by (simp add: word_less_def)
  ultimately show "test_key_generation U X v4 clock = Return ()"
    by (simp add: test_key_generation_def from_to_be_bytes Let_def)
  have "keyable (clock 0 - 10 * 1000000000)" "keyable (clock 0 - 5 * 1000000000)"
    using assms(4,5) by (simp_all add: keyable_def)
  then show "test_key_generation_ordering U X v4 clock = Return ()"
    using assms(4)
    by (simp add: test_key_generation_ordering_def event_key_less_iff codec_libs.nanos_less_keyable[OF assms(1)]
        Let_def)
qed

theorem key_tests_pass_witness:
  "test_key_generation binary_uuid (table_libs []) word_of_nat (\<lambda>_. 20 * 1000000000) = Return ()
   \<and> test_key_generation_ordering binary_uuid (table_libs []) word_of_nat (\<lambda>_. 20 * 1000000000) = Return ()"
  using key_tests_pass[OF table_libs_ok, of "\<lambda>_. 20 * 1000000000" binary_uuid]
  by (simp add: keyable_def i64_max_def)

end
