(* ===== verification/PathTests.thy ===== *)
theory PathTests
  imports PathResolver
begin

text \<open>The unit tests of \<^verbatim>\<open>path_resolver.rs\<close>, as runs that return or panic.\<close>

section \<open>The tests\<close>

definition test_parse_account_id :: "UuidText \<Rightarrow> uuid \<Rightarrow> unit run" where
  "test_parse_account_id U v4 =
     (let account_id = account_id_new v4;
          path = ''/accounts/'' @ uuid_to_string U (account_uuid account_id) @ ''/balance.json'' in
      run_bind (unwrap (parse_account_id U path)) (\<lambda>parsed.
      asserting (parsed = account_id)))"

definition test_is_directory :: "unit run" where
  "test_is_directory =
     run_bind (asserting (is_directory ''/'')) (\<lambda>_.
     run_bind (asserting (is_directory ''/accounts'')) (\<lambda>_.
     run_bind (asserting (is_directory ''/accounts/123e4567-e89b-12d3-a456-426614174000'')) (\<lambda>_.
     asserting (\<not> is_directory ''/accounts/123e4567-e89b-12d3-a456-426614174000/balance.json''))))"

definition test_file_type :: "unit run" where
  "test_file_type =
     run_bind (asserting (get_file_type ''/accounts/test/balance.json'' = Json)) (\<lambda>_.
     run_bind (asserting (get_file_type ''/accounts/test/tx.log'' = Log)) (\<lambda>_.
     asserting (get_file_type ''/docs/test/doc.pdf'' = Pdf)))"

section \<open>Properties\<close>

text \<open>The unit tests of the path resolver pass, with any identifier drawn and any printer and parser
  of identifiers that are inverse to each other.\<close>

theorem path_unit_tests_pass:
  assumes "uuid_text U"
  shows "test_parse_account_id U v4 = Return () \<and> test_is_directory = Return () \<and> test_file_type = Return ()"
proof (intro conjI)
  show "test_parse_account_id U v4 = Return ()"
    using uuid_text.parse_account_segment[OF assms, of "''/balance.json''" v4]
    by (simp add: test_parse_account_id_def account_id_new_def slash_def Let_def)
  show "test_is_directory = Return ()"
    by (simp add: test_is_directory_def is_directory_def starts_with_def slash_def)
  show "test_file_type = Return ()"
    by (simp add: test_file_type_def get_file_type_def is_directory_def ends_with_def starts_with_def slash_def)
qed

theorem path_unit_tests_pass_witness:
  "test_parse_account_id binary_uuid 7 = Return ()"
  using path_unit_tests_pass[OF binary_uuid_text, of 7] by blast

end
