(* ===== verification/Spec2Isabelle.thy ===== *)
theory Spec2Isabelle
  imports FuseMount ServiceTraits QueryClient BatchTests RecoveryTests SerializationTests PathTests
begin

text \<open>
  LedgerFS is an append-only event store for a financial ledger, written in Rust over RocksDB, and a
  read-only FUSE filesystem that shows accounts and balances. This development models its three crates
  (\<^verbatim>\<open>ledgerfs-core\<close>, \<^verbatim>\<open>ledgerfs-event-store\<close>, \<^verbatim>\<open>ledgerfs-fuse\<close>, under \<^verbatim>\<open>src/crates/\<close>) and proves what
  makes them correct, or shows where they are not. The properties are the theorems whose text begins
  with C and a number; each that has a hypothesis is followed by a witness, the theorem at a concrete
  input.

  The parts and how they interact. Producers send event envelopes to the batch processors or hand them
  to the synchronous writer; these append batches to the event store, which keys them by time and
  identifier, serializes them and writes them to RocksDB. Queries and the recovery manager read the
  store. The filesystem does not read the store: it is given three repositories, and the demonstration
  binary gives it mocks.

  Which theory models what:
  \<^item> \<open>LedgerPrelude\<close>: machine words, results as sums (\<open>Err\<close> left, \<open>Ok\<close> right), the functions of
    Rust's strings, big-endian bytes and their order, key-sorted association lists.
  \<^item> \<open>CoreTypes\<close> (\<^verbatim>\<open>types.rs\<close>, \<^verbatim>\<open>errors.rs\<close>) and \<open>CoreEvents\<close> (\<^verbatim>\<open>events.rs\<close>, \<^verbatim>\<open>commands.rs\<close>): one record
    per struct, one datatype per enum; amounts are 64-bit words with checked addition and subtraction;
    a call that may panic has type \<open>run\<close>. \<open>ServiceTraits\<close>: the interfaces of \<^verbatim>\<open>traits.rs\<close> nobody
    implements.
  \<^item> \<open>StoreConfig\<close> (\<^verbatim>\<open>config.rs\<close>), \<open>Serialization\<close> (\<^verbatim>\<open>serialization.rs\<close>): presets, framing, compression,
    keys.
  \<^item> \<open>RocksIface\<close>: RocksDB as a record of functions with the locale \<open>rocksdb\<close> of its documented
    behaviour. \<open>EventStore\<close> and \<open>EventQueries\<close> (\<^verbatim>\<open>store.rs\<close>): opening, the three appends, compaction; the
    query loop, lookups, scans, statistics. \<open>StoreAppend\<close>: the appends refine an append-only finite map
    from keys to events. \<open>StoreLog\<close>: what they add to the list of stored events. \<open>QueryClient\<close>: a client
    that reads a result page by page.
  \<^item> \<open>F64\<close>, \<open>Batch\<close>, \<open>BatchSystem\<close>, \<open>BatchStore\<close> (\<^verbatim>\<open>batch.rs\<close>): binary64 arithmetic of the metrics, batches,
    one flush, the synchronous writer; then the processors and their channel as a transition system,
    one rule per branch of the \<^verbatim>\<open>select!\<close> loop; then what a run leaves in the store.
  \<^item> \<open>Recovery\<close> (\<^verbatim>\<open>recovery.rs\<close>): the four checks and the report, against a ledger of unbounded integers.
  \<^item> \<open>PathResolver\<close> (\<^verbatim>\<open>path_resolver.rs\<close>), \<open>FuseFilesystem\<close>, \<open>FuseCorrect\<close>, \<open>FuseClient\<close>
    (\<^verbatim>\<open>filesystem.rs\<close>), \<open>FuseMount\<close> (\<^verbatim>\<open>lib.rs\<close>, \<^verbatim>\<open>mount.rs\<close>, \<^verbatim>\<open>bin/ledgerfs-fuse.rs\<close>): inode tables,
    attributes, contents and the four handlers, each one step; clients that list a directory page by
    page and read a file block by block; mounting, unmounting on every target, the mocks and \<^verbatim>\<open>main\<close>.
  \<^item> \<open>StoreTests\<close>, \<open>BatchTests\<close>, \<open>RecoveryTests\<close>, \<open>SerializationTests\<close>, \<open>PathTests\<close>: the repository's own
    tests as runs that return or panic, with theorems that they pass, and that one cannot.

  Code outside the repository is a parameter, and what is relied on is a locale's assumptions:
  \<open>rocksdb\<close> (a finite map iterated in key order, batches atomic, any call may fail), \<open>codec_libs\<close>
  (bincode and LZ4 decode what they encode, chrono's nanoseconds), \<open>uuid_text\<close> (identifiers print
  without slashes and parse back), and \<open>event_store_env\<close>, \<open>reliable_store\<close> on top. Every one is
  interpreted: on an in-memory database, on a codec over a table of envelopes, on binary digits. The
  contracts between the parts are locales too: \<open>codec\<close> (both settings of the serializer),
  \<open>append_log\<close> (plain, optimized and flushed appends), \<open>flush_counter\<close> (the three counters of the
  metrics). Random identifiers, the clock and stopwatch readings are arguments of the definitions. The
  filesystem's repositories may answer differently from one request to the next: their methods take the
  moment of the request, and so do the handlers that call them.

  What the lemmas show. Appends: each call leaves the store alone or adds its whole batch under fresh
  keys; nothing is overwritten by a later call; what was accepted is read back, in key order, which is
  the order of time from 1970 on. Processors: events are conserved between channel, batches and writes;
  batches stay within their bound; metrics count the writes; with the sender dropped the system drains
  under every schedule, by a measure that no timer tick raises, and over a database that never fails
  every event is stored; a crash at any point leaves
  a store in which a recovery finds no corruption. Recovery: the exact report; transfers conserve
  money. Filesystem: inode tables stay inverse to each other, listings are complete and their entries
  resolve, replies are well typed, reads terminate, and panic exactly under the conditions given. The
  negative results (events stranded by a
  shutdown, a failed flush that drops its batch, reads that panic at the root, a mount failure reported
  as success, attributes that truncate, block-wise reads that mix renderings, names that are found
  whether they exist or not, queries from before 1970 that return nothing, events counted twice) are
  properties as well.

  Bounds and fuel. A query without a limit returns 1000 events at most, so statements about it take the
  first 1000; counters are words and wrap at \<open>2 ^ 64\<close>; inodes are 64-bit, and statements about long
  runs of requests assume that fewer are asked for than there are (\<open>listing_room\<close> bounds what one
  listing takes, \<open>run_room\<close> what a run of requests takes). The client that lists a directory is given one request more than there are entries,
  the one that reads a file one more than there are blocks, the one that pages through a query one
  more than there are full pages, and all three are shown to finish; for the last two fewer requests
  are shown not to do, and running out of requests is a value of its own, apart from errors. A channel
  has a capacity between 1 and tokio's limit. Everything else recurses structurally.

  Not modelled: tracing output and the text of errors that is only logged; the scheduler's fairness and
  the timing of the processors (any interleaving of their steps is a run, and statements about progress
  say which steps remain); the mutex around the receiver (a step takes one event); a second \<^verbatim>\<open>start\<close> on
  one processor; the store's lock (each operation holds it for its whole length, so an operation is one
  step); crate roots, which only re-export; the documents under \<^verbatim>\<open>src/\<close>.
\<close>

section \<open>Properties\<close>

text \<open>C4: What a batch append accepted is read back. After a successful append of events with
  distinct keys the log of the store is the old log and the batch merged in key order: a query
  without filters returns the first 1000 events of it, and a lookup by identifier finds every event
  of the batch that shares its identifier with no other.\<close>

theorem appended_batch_reads_back:
  assumes "event_store_env R contents X" and "store_wf X contents s"
    and "append_events R X s es = (Ok (), s')" and "distinct (map (generate_event_key X) es)"
    and "iterates R (es_db s') Start"
  shows "query_events R X s' query_all = Ok
      \<lparr>events = take 1000 (sort_key (generate_event_key X) (event_log X contents s @ es)),
       total_count = None, has_more = (1000 \<le> length (event_log X contents s) + length es)\<rparr>
    \<and> (\<forall>e\<in>set es. (\<forall>d\<in>set (event_log X contents s @ es). event_id d = event_id e \<longrightarrow> d = e) \<longrightarrow>
        get_event R X s' (event_id e) = Ok (Some e))"
proof -
  note log = event_store_env.log_after_append[OF assms(1-4)]
  have "get_event R X s' (event_id e) = Inr (Some e)"
    if "e \<in> set es" "\<forall>d\<in>set (event_log X contents s @ es). event_id d = event_id e \<longrightarrow> d = e" for e
    using event_store_env.get_event_eq[OF assms(1) conjunct1[OF log] assms(5)] log that
    by (simp add: find_unique)
  with event_store_env.query_everything[OF assms(1) conjunct1[OF log] assms(5)] log
  show ?thesis by simp
qed

theorem appended_batch_reads_back_witness:
  "\<exists>s'. append_events ram_db three_libs (demo_store False) [root_event 2 6, root_event 1 5] = (Ok (), s')
     \<and> get_event ram_db three_libs s' (EventId 1) = Ok (Some (root_event 1 5))
     \<and> query_events ram_db three_libs s' query_all =
         Ok \<lparr>events = [root_event 1 5, root_event 2 6], total_count = None, has_more = False\<rparr>"
proof -
  let ?es = "[root_event 2 6, root_event 1 5]"
  obtain s' where a: "append_events ram_db three_libs (demo_store False) ?es = (Inr (), s')"
    unfolding three_libs_def by (simp add: append_events_def demo_simps Let_def)
  have log: "event_log three_libs ram_contents (demo_store False) = []"
    by (simp add: event_log_def demo_store_def map_filter_simps)
  have "distinct (map (generate_event_key three_libs) ?es)"
    by (simp add: event_key_eq_iff nanos_three)
  moreover have "sort_key (generate_event_key three_libs) ?es = [root_event 1 5, root_event 2 6]"
    by (simp add: event_key_less_iff event_key_eq_iff nanos_three flip: not_less)
  ultimately show ?thesis
    using appended_batch_reads_back[OF three_env demo_wf a _ ram_iterates] a log by simp
qed

text \<open>From the channel to the queries. When every processor has left its loop with the channel
  empty, and every write succeeded, the log of the store is the log at the start and the events sent,
  merged in key order: each event sent is stored exactly once, whatever the interleaving and the
  batches.\<close>

theorem drained_system_stores_all:
  assumes "event_store_env R contents X" and "store_wf X contents s"
    and "system_run R X (processor_start s config) ls t"
    and "\<forall>p\<in>set (bp_processors t). p = Stopped" and "bp_queue t = []"
    and "\<forall>i took es r. Write i took es r \<in> set ls \<longrightarrow> \<not> isl r"
    and "distinct (map (generate_event_key X) (event_log X contents s @ sent ls))"
    and "iterates R (es_db (bp_store t)) Start"
  shows "query_events R X (bp_store t) query_all = Ok
      \<lparr>events = take 1000 (sort_key (generate_event_key X) (event_log X contents s @ sent ls)),
       total_count = None, has_more = (1000 \<le> length (event_log X contents s) + length (sent ls))\<rparr>
    \<and> event_log X contents (bp_store t) = sort_key (generate_event_key X) (event_log X contents s @ sent ls)"
proof -
  have "in_flight t = {#}" using in_flight_stopped[OF assms(4)] assms(5) by simp
  note log = event_store_env.log_after_run[OF assms(1,3,2) this assms(6,7)]
  with event_store_env.query_everything[OF assms(1) conjunct1[OF log] assms(8)] show ?thesis by simp
qed

lemma small_run_drained:
  "\<exists>s. system_run ram_db three_libs (small_start True)
      [Begin 0 0, Send (root_event 1 5), Recv 0 (root_event 1 5), Write 0 0 [root_event 1 5] (Inr None),
       Record 0 7 7, Shutdown, Notified 0] s
    \<and> bp_processors s = [Stopped] \<and> bp_queue s = []"
proof -
  let ?e = "root_event 1 5"
  let ?s = "(small_start True)\<lparr>bp_processors := [Appending \<lparr>batch_events = [?e], created_at = 0\<rparr> False]\<rparr>"
  obtain st where f: "flush_append ram_db three_libs one_processor 0 (demo_store True) [?e] = (Inr None, st)"
    unfolding three_libs_def by (simp add: flush_append_def small_simps append_events_def demo_simps)
  let ?t = "?s\<lparr>bp_store := st, bp_processors := [Recording 0 1 (Inr None) False]\<rparr>"
  have "system_step ram_db three_libs ?s (Write 0 0 [?e] (Inr None)) ?t"
    using step_write[of 0 ?s "\<lparr>batch_events = [?e], created_at = 0\<rparr>" False ram_db three_libs 0 "Inr None" st 0] f
    by (simp add: batch_len_def processor_start_def)
  note 1 = run_step[OF small_run_appending this]
  obtain u where u: "system_step ram_db three_libs ?t (Record 0 7 7) u"
    "bp_processors u = [Selecting (event_batch_new 7) False]" "bp_queue u = []"
    using step_record[of 0 ?t 0 1 "Inr None" False ram_db three_libs 7 7]
    by (force simp: after_record_def processor_start_def)
  let ?v = "u\<lparr>bp_processors := [Selecting (event_batch_new 7) True]\<rparr>"
  have "system_step ram_db three_libs u Shutdown ?v"
    using step_shutdown[of ram_db three_libs u] u(2) by simp
  note 2 = run_step[OF run_step[OF 1 u(1)] this]
  have "system_step ram_db three_libs ?v (Notified 0) (?v\<lparr>bp_processors := [Stopped]\<rparr>)"
    using step_notified[of 0 ?v "event_batch_new 7" ram_db three_libs]
    by (simp add: on_exit_def batch_is_empty_def event_batch_new_def)
  from run_step[OF 2 this] u(3) show ?thesis
    by (intro exI[of _ "?v\<lparr>bp_processors := [Stopped]\<rparr>"]) simp
qed

theorem drained_system_stores_all_witness:
  "\<exists>t :: ram BatchProcessor. event_log three_libs ram_contents (bp_store t) = [root_event 1 5]"
proof -
  from small_run_drained obtain t where t: "system_run ram_db three_libs (small_start True)
      [Begin 0 0, Send (root_event 1 5), Recv 0 (root_event 1 5), Write 0 0 [root_event 1 5] (Inr None),
       Record 0 7 7, Shutdown, Notified 0] t" "bp_processors t = [Stopped]" "bp_queue t = []" by blast
  have "event_log three_libs ram_contents (demo_store True) = []"
    by (simp add: event_log_def demo_store_def map_filter_simps)
  with drained_system_stores_all[OF three_env demo_wf t(1) _ t(3) _ _ ram_iterates] t(2)
  show ?thesis by auto
qed

text \<open>C7: Nothing sent is lost over a well-formed store in a database that never fails, if there is at least one processor and
  the batch delay is not 0. Once the sender is dropped, if no shutdown is signalled, if the events sent
  can be encoded and have keys of their own, then in every continuation of every run, whatever the
  interleaving and the timer ticks: no write of the whole run fails, at most a bounded number of the
  steps are not ticks, and where no such step is left every processor is out of its loop; and at that
  point the store holds the old log and every event sent, merged in key order, a query without filters
  returns the first 1000 of them and says whether there may be more, and the metrics count every event
  (modulo \<open>2 ^ 64\<close>) and no error. Such a continuation exists.\<close>

theorem reliable_system_stores_all:
  assumes "reliable_store R contents X" and "store_wf X contents s"
    and "system_run R X (processor_start s config) ls t"
    and "Shutdown \<notin> set ls" and "\<not> bp_sender_open t"
    and "1 \<le> num_processors config" and "max_batch_delay config \<noteq> 0"
    and "\<forall>e\<in>set (sent ls). encodable X (es_serializer s) e"
    and "distinct (map (generate_event_key X) (event_log X contents s @ sent ls))"
  shows "(\<exists>ks u. system_run R X t ks u \<and> Shutdown \<notin> set ks \<and> (\<forall>p\<in>set (bp_processors u). p = Stopped))
    \<and> (\<forall>ks u. system_run R X t ks u \<and> Shutdown \<notin> set ks \<longrightarrow>
        (\<forall>i took es r. Write i took es r \<in> set (ls @ ks) \<longrightarrow> \<not> isl r)
        \<and> length (filter quiet ks) \<le> drain_measure t
        \<and> ((\<exists>l v. system_step R X u l v \<and> quiet l) \<or> (\<forall>p\<in>set (bp_processors u). p = Stopped))
        \<and> ((\<forall>p\<in>set (bp_processors u). p = Stopped) \<longrightarrow>
            event_log X contents (bp_store u) =
              sort_key (generate_event_key X) (event_log X contents s @ sent ls)
            \<and> query_events R X (bp_store u) query_all = Ok
                \<lparr>events = take 1000 (sort_key (generate_event_key X) (event_log X contents s @ sent ls)),
                 total_count = None,
                 has_more = (1000 \<le> length (event_log X contents s) + length (sent ls))\<rparr>
            \<and> total_events_processed (get_metrics u) = word_of_nat (length (sent ls))
            \<and> processing_errors (get_metrics u) = 0))"
    (is "?ex \<and> (\<forall>ks u. ?run ks u \<longrightarrow> ?ok ks u)")
proof
  show ?ex using drain_complete[OF assms(3-7)] by fastforce
  show "\<forall>ks u. ?run ks u \<longrightarrow> ?ok ks u"
  proof (intro allI impI)
    fix ks u
    assume run: "?run ks u"
    then have ks: "system_run R X t ks u" and noshut: "Shutdown \<notin> set ks" by blast+
    note env = reliable_store.axioms(1)[OF assms(1)]
    note drained = reliable_store.reliable_drained[OF assms(1,3,2,4-9) ks noshut]
    have "query_events R X (bp_store u) query_all = Ok
        \<lparr>events = take 1000 (event_log X contents (bp_store u)), total_count = None,
         has_more = (1000 \<le> length (event_log X contents (bp_store u)))\<rparr>"
      if "\<forall>p\<in>set (bp_processors u). p = Stopped"
      using event_store_env.query_everything[OF env _ reliable_store.iterates_total[OF assms(1)]]
        drained[OF that] by blast
    with drained drains_always[OF assms(3-7) ks noshut]
      reliable_store.reliable_continuation[OF assms(1,3,2,5,8,9) ks]
    show "?ok ks u" by (auto simp: get_metrics_def)
  qed
qed

theorem reliable_system_stores_all_witness:
  "\<exists>t ks u. system_run ram_db three_libs (small_start True) [Begin 0 0, Send (root_event 1 5), CloseSender] t
     \<and> system_run ram_db three_libs t ks u
     \<and> query_events ram_db three_libs (bp_store u) query_all =
         Ok \<lparr>events = [root_event 1 5], total_count = None, has_more = False\<rparr>
     \<and> total_events_processed (get_metrics u) = 1"
proof -
  let ?e = "root_event 1 5" and ?s = "demo_store True :: ram EventStore"
  let ?ls = "[Begin 0 0, Send ?e, CloseSender]"
  let ?t = "(small_ready True)\<lparr>bp_queue := [?e], bp_sender_open := False\<rparr>"
  have r: "system_run ram_db three_libs (small_start True) ?ls ?t"
    using run_step[OF small_run_send step_close] by simp
  have log: "event_log three_libs ram_contents ?s = []" and sent: "sent ?ls = [?e]"
    by (simp_all add: event_log_def demo_store_def map_filter_simps)
  have enc: "encodable three_libs ser ?e" for ser
    unfolding three_libs_def by (rule table_encodable) simp_all
  have reliable: "reliable_store ram_db ram_contents three_libs"
    unfolding three_libs_def by (rule ram_reliable)
  have "Shutdown \<notin> set ?ls" "\<not> bp_sender_open ?t" "1 \<le> num_processors one_processor"
    "max_batch_delay one_processor \<noteq> 0" "\<forall>e\<in>set (sent ?ls). encodable three_libs (es_serializer ?s) e"
    "distinct (map (generate_event_key three_libs) (event_log three_libs ram_contents ?s @ sent ?ls))"
    by (simp_all add: log sent enc one_processor_def)
  note all = reliable_system_stores_all[OF reliable demo_wf r this, unfolded log sent]
  then obtain ks u where u: "system_run ram_db three_libs ?t ks u" "Shutdown \<notin> set ks"
    "\<forall>p\<in>set (bp_processors u). p = Stopped" by blast
  with all have "query_events ram_db three_libs (bp_store u) query_all = Ok \<lparr>events = take 1000
      (sort_key (generate_event_key three_libs) ([] @ [?e])), total_count = None,
      has_more = (1000 \<le> length ([] :: EventEnvelope list) + length [?e])\<rparr>"
    "total_events_processed (get_metrics u) = word_of_nat (length [?e])" by blast+
  with r u(1) show ?thesis by (intro exI[of _ ?t] exI[of _ ks] exI[of _ u]) simp
qed

text \<open>C8: A crash never corrupts. Stop the processors at any point of any run, whatever writes had
  failed by then, and recover from the store they left: if the events sent and the events of the old
  log are valid by the clock and dated from 1970 on, the recovery succeeds and counts no corrupted
  event and no step back in time; nothing stored before is missing, and whatever is stored was stored
  before or sent. Only balances that leave the 64-bit range are counted as errors.\<close>

theorem crash_recovery_finds_no_corruption:
  assumes "event_store_env R contents X" and "store_wf X contents s"
    and "system_run R X (processor_start s config) ls t"
    and "\<forall>e\<in>set (event_log X contents s @ sent ls). keyable (timestamp e)
      \<and> (\<forall>i. validate_event_envelope show_time (clock i) e = Ok ())"
    and "iterates R (es_db (bp_store t)) Start"
  shows "set (event_log X contents s) \<subseteq> set (event_log X contents (bp_store t))
    \<and> set (event_log X contents (bp_store t)) \<subseteq> set (event_log X contents s) \<union> set (sent ls)
    \<and> (\<exists>st. recover R X show_time clock ms (recovery_manager_new (bp_store t)) options = Ok st
         \<and> corrupted_events_found st = 0
         \<and> consistency_errors st = word_of_nat
             (posting_errors (ledger_postings (take 1000 (event_log X contents (bp_store t)))) Map.empty))"
proof -
  let ?log = "event_log X contents (bp_store t)"
  note origin = event_store_env.run_log_origin[OF assms(1,3,2)]
  have all: "\<forall>e\<in>set ?log. keyable (timestamp e)
      \<and> (\<forall>i. validate_event_envelope show_time (clock i) e = Inr ())"
    using origin assms(4) by auto
  then have "well_dated X contents (bp_store t)" by (simp add: well_dated_def)
  moreover have "\<forall>i<length ?log. validate_event_envelope show_time (clock i) (?log ! i) = Inr ()"
    using all by simp
  ultimately show ?thesis
    using valid_log_report[OF assms(1) conjunct1[OF origin] assms(5)] origin by blast
qed

theorem crash_recovery_finds_no_corruption_witness:
  "\<exists>t st. system_run ram_db (table_libs [root_event 1 5]) (small_start True)
      [Begin 0 0, Send (root_event 1 5), Recv 0 (root_event 1 5), Write 0 0 [root_event 1 5] (Inr None)] t
    \<and> recover ram_db (table_libs [root_event 1 5]) (\<lambda>_. ''t'') (\<lambda>_. 10) 4
        (recovery_manager_new (bp_store t)) recovery_options_default = Ok st
    \<and> corrupted_events_found st = 0"
proof -
  from small_run_written obtain t where t: "system_run ram_db (table_libs [root_event 1 5]) (small_start True)
      [Begin 0 0, Send (root_event 1 5), Recv 0 (root_event 1 5), Write 0 0 [root_event 1 5] (Inr None)] t"
    by blast
  have "event_log (table_libs [root_event 1 5]) ram_contents (demo_store True) = []"
    by (simp add: event_log_def demo_store_def map_filter_simps)
  then have "\<forall>e\<in>set (event_log (table_libs [root_event 1 5]) ram_contents (demo_store True)
      @ sent [Begin 0 0, Send (root_event 1 5), Recv 0 (root_event 1 5), Write 0 0 [root_event 1 5] (Inr None)]).
      keyable (timestamp e) \<and> (\<forall>i. validate_event_envelope (\<lambda>_. ''t'') ((\<lambda>_. 10) (i::nat)) e = Inr ())"
    by (simp add: sent_def validate_Ok_iff root_event_def ten_years_def)
  from crash_recovery_finds_no_corruption[OF demo_env demo_wf t this ram_iterates] t show ?thesis by blast
qed

text \<open>C23: A client that walks from the root to the balance of an account the repository knows, by the
  names \<^verbatim>\<open>accounts\<close>, the identifier and \<^verbatim>\<open>balance.json\<close>, is led through two directories to a file,
  and reading it there, at a moment at which the repository answers with the balance, a runtime can be
  made and the balance printed, gives the rendered balance, at any offset and of any size.\<close>

theorem balance_file_reachable:
  assumes "uuid_text (fl_uuid L)" and "inodes_ok fs" and "unat (next_inode fs) + 3 < 2 ^ 64"
    and "map (fl_to_string_lossy L) [n1, n2, n3] =
      [''accounts'', uuid_to_string (fl_uuid L) (account_uuid a), ''balance.json'']"
    and "get_balance (balance_repo fs) m a = Ok (Some b)"
    and "fl_to_string_pretty L m (balance_value b) = Some text"
    and "fl_runtime L m" and "length text < 2 ^ 63" and "\<not> checks \<or> unat offset + unat size' < 2 ^ 64"
  shows "\<exists>a1 a2 a3 fs1 fs2 fs3. lookup_entry L t1 fs 1 n1 = (Reply (TTL, a1), fs1)
    \<and> lookup_entry L t2 fs1 (attr_ino a1) n2 = (Reply (TTL, a2), fs2)
    \<and> lookup_entry L t3 fs2 (attr_ino a2) n3 = (Reply (TTL, a3), fs3)
    \<and> attr_kind a1 = Directory \<and> attr_kind a2 = Directory \<and> attr_kind a3 = RegularFile
    \<and> read_file L checks m fs3 (attr_ino a3) offset size' =
        Return (Reply (take (unat size') (drop (unat offset) (map of_char text))))"
proof -
  let ?u = "uuid_to_string (fl_uuid L) (account_uuid a)"
  have root: "get_path fs 1 = Some ''/''" using assms(2) by (simp add: inodes_ok_def get_path_def)
  have free: "slash \<notin> set ?u" using uuid_text.uuid_no_slash[OF assms(1)] by (simp add: slash_def)
  note n = assms(4)[simplified]
  from lookup_reaches[OF assms(2) _ root, of L t1 n1] assms(3) obtain i1 fs1 where
    1: "lookup_entry L t1 fs 1 n1 = (Reply (TTL, create_file_attr t1 i1 0 (lookup_is_dir ''/accounts'')), fs1)"
      "get_path fs1 i1 = Some ''/accounts''" "grows 1 fs fs1"
    by (auto simp: n child_path_def)
  from lookup_reaches[OF _ _ 1(2), of L t2 n2] 1(3) assms(3) obtain i2 fs2 where
    2: "lookup_entry L t2 fs1 i1 n2 = (Reply (TTL, create_file_attr t2 i2 0 (lookup_is_dir (''/accounts/'' @ ?u))), fs2)"
      "get_path fs2 i2 = Some (''/accounts/'' @ ?u)" "grows 1 fs1 fs2"
    by (auto simp: n child_path_def grows_def)
  from lookup_reaches[OF _ _ 2(2), of L t3 n3] 1(3) 2(3) assms(3) obtain i3 fs3 where
    3: "lookup_entry L t3 fs2 i2 n3 = (Reply (TTL, create_file_attr t3 i3 0 (lookup_is_dir (balance_path (fl_uuid L) a))), fs3)"
      "get_path fs3 i3 = Some (balance_path (fl_uuid L) a)" "grows 1 fs2 fs3"
    by (auto simp: n child_path_def grows_def balance_path_def)
  have kinds: "lookup_is_dir ''/accounts''" "lookup_is_dir (''/accounts/'' @ ?u)"
    "\<not> lookup_is_dir (balance_path (fl_uuid L) a)"
    using free by (simp_all add: lookup_is_dir_def balance_path_def starts_with_def slash_def)
  have "get_balance (balance_repo fs3) m a = Inr (Some b)"
    using assms(5) 1(3) 2(3) 3(3) by (simp add: grows_def)
  from read_content_balance[OF assms(1) this assms(6)] 3(2) assms(7-9)
  have "read_file L checks m fs3 i3 offset size' =
      Return (Reply (take (unat size') (drop (unat offset) (map of_char text))))"
    by (simp add: read_file_def reply_slice_eq)
  with 1(1) 2(1) 3(1) kinds show ?thesis by (simp add: create_file_attr_def)
qed

theorem balance_file_reachable_witness:
  "\<exists>(a3 :: FileAttr) fs3. read_file demo_fuse True 0 fs3 (attr_ino a3) 1 4 = Return (Reply (map of_char ''json''))
     \<and> attr_kind a3 = RegularFile"
proof -
  have names: "map (fl_to_string_lossy demo_fuse) [map of_char n1, map of_char n2, map of_char n3] =
      [n1, n2, n3]" for n1 n2 n3
    by (simp only: demo_lossy list.map)
  have room: "unat (next_inode demo_fs) + 3 < 2 ^ 64" by (simp add: demo_next)
  have known: "get_balance (balance_repo demo_fs) 0 (AccountId 1) = Inr (Some \<lparr>bal_account_id = AccountId 1,
      bal_amount = Amount 5, bal_currency = currency_usd, bal_as_of = 0, bal_version = 1\<rparr>)"
    by (simp add: demo_fs_def filesystem_new_def)
  have shown: "fl_to_string_pretty demo_fuse m v = Some ''{json}''" "fl_runtime demo_fuse 0" for m v
    by (simp_all add: demo_fuse_def)
  obtain a3 :: FileAttr and fs3 where "attr_kind a3 = RegularFile"
    "read_file demo_fuse True 0 fs3 (attr_ino a3) 1 4 =
      Return (Reply (take 4 (drop (Suc 0) (map of_char ''{json}''))))"
    using balance_file_reachable[OF demo_uuid demo_fs_ok room names known shown, of True 1 4 0 0 0]
    by (simp del: list.map(2)) blast
  then show ?thesis by auto
qed

end
